theory Spec2Isabelle
  imports Main "HOL-Library.Char_ord" "HOL-Library.List_Lexorder" "HOL-Library.Product_Lexorder"
begin

section \<open>Text primitives\<close>

text \<open>
  Strings are lists of 8-bit characters, read as the code points 0 to 255 (Latin-1).
  On these code points Python's \<^verbatim>\<open>str.lower\<close>, \<^verbatim>\<open>str.strip\<close> and the classes \<^verbatim>\<open>\s\<close>,
  \<^verbatim>\<open>\d\<close> and \<^verbatim>\<open>\w\<close> of \<^verbatim>\<open>re\<close> are the functions below: white space includes
  \<^verbatim>\<open>0x85\<close> and \<^verbatim>\<open>0xA0\<close>, the capitals \<^verbatim>\<open>0xC0\<close> to \<^verbatim>\<open>0xDE\<close> other than \<^verbatim>\<open>0xD7\<close> have
  a lower-case form 32 places higher, and the word characters above \<^verbatim>\<open>0x7F\<close> are the
  letters and the numeric signs. No pattern letter of the source matches a character
  above \<^verbatim>\<open>0x7F\<close> under \<^verbatim>\<open>re.IGNORECASE\<close>. Python orders strings by code point, which
  is the lexicographic order of \<^typ>\<open>char list\<close> used here.
\<close>

definition is_space :: "char \<Rightarrow> bool" where
  "is_space c = (c \<in> set [CHR 0x09, CHR 0x0A, CHR 0x0B, CHR 0x0C, CHR 0x0D,
                            CHR 0x1C, CHR 0x1D, CHR 0x1E, CHR 0x1F, CHR 0x20,
                            CHR 0x85, CHR 0xA0])"

definition is_upper :: "char \<Rightarrow> bool" where
  "is_upper c = (CHR ''A'' \<le> c \<and> c \<le> CHR ''Z'')"

definition is_digit :: "char \<Rightarrow> bool" where
  "is_digit c = (CHR ''0'' \<le> c \<and> c \<le> CHR ''9'')"

definition is_lower_alnum :: "char \<Rightarrow> bool" where
  "is_lower_alnum c = ((CHR ''a'' \<le> c \<and> c \<le> CHR ''z'') \<or> is_digit c)"

definition is_latin_upper :: "char \<Rightarrow> bool" where
  "is_latin_upper c = (CHR 0xC0 \<le> c \<and> c \<le> CHR 0xDE \<and> c \<noteq> CHR 0xD7)"

definition is_word :: "char \<Rightarrow> bool" where
  "is_word c = (is_lower_alnum c \<or> is_upper c \<or> c = CHR ''_''
                \<or> c \<in> set [CHR 0xAA, CHR 0xB2, CHR 0xB3, CHR 0xB5, CHR 0xB9, CHR 0xBA,
                              CHR 0xBC, CHR 0xBD, CHR 0xBE]
                \<or> (CHR 0xC0 \<le> c \<and> c \<noteq> CHR 0xD7 \<and> c \<noteq> CHR 0xF7))"

definition lower_char :: "char \<Rightarrow> char" where
  "lower_char c = (if is_upper c \<or> is_latin_upper c then char_of (of_char c + (32::nat)) else c)"

definition lower :: "string \<Rightarrow> string" where
  "lower s = map lower_char s"

definition lstrip :: "string \<Rightarrow> string" where
  "lstrip s = dropWhile is_space s"

text \<open>Removal of a trailing run of characters, as \<^verbatim>\<open>str.rstrip\<close> does.\<close>

definition drop_end :: "(char \<Rightarrow> bool) \<Rightarrow> string \<Rightarrow> string" where
  "drop_end P s = rev (dropWhile P (rev s))"

definition rstrip :: "string \<Rightarrow> string" where
  "rstrip s = drop_end is_space s"

definition strip :: "string \<Rightarrow> string" where
  "strip s = rstrip (lstrip s)"

definition startswith :: "string \<Rightarrow> string \<Rightarrow> bool" where
  "startswith s p = (take (length p) s = p)"

definition endswith :: "string \<Rightarrow> string \<Rightarrow> bool" where
  "endswith s p = (length p \<le> length s \<and> drop (length s - length p) s = p)"

text \<open>\<^verbatim>\<open>sub in s\<close>: substring test.\<close>

fun contains :: "string \<Rightarrow> string \<Rightarrow> bool" where
  "contains sub [] = (sub = [])"
| "contains sub (c # cs) = (startswith (c # cs) sub \<or> contains sub cs)"

text \<open>\<^verbatim>\<open>re.sub(r"\s+", " ", s)\<close>: every maximal run of white space becomes one blank.
  The flag says that the previous character belonged to a run already replaced.\<close>

fun collapse_ws :: "bool \<Rightarrow> string \<Rightarrow> string" where
  "collapse_ws in_run [] = []"
| "collapse_ws in_run (c # cs) =
     (if is_space c then (if in_run then collapse_ws True cs else CHR '' '' # collapse_ws True cs)
      else c # collapse_ws False cs)"

text \<open>\<^verbatim>\<open>re.search(rf"\b{w}\b", s)\<close> for a word \<open>w\<close> of word characters: \<open>w\<close> occurs in
  \<open>s\<close> with no word character directly before or after it. The flag says that the
  character before the current position is a word character.\<close>

fun has_word :: "string \<Rightarrow> bool \<Rightarrow> string \<Rightarrow> bool" where
  "has_word w prev [] = False"
| "has_word w prev (c # cs) =
     ((\<not> prev \<and> startswith (c # cs) w \<and>
        (case drop (length w) (c # cs) of [] \<Rightarrow> True | d # _ \<Rightarrow> \<not> is_word d))
      \<or> has_word w (is_word c) cs)"

text \<open>Decimal rendering of a natural number, as an f-string does.\<close>

fun show_nat :: "nat \<Rightarrow> string" where
  "show_nat n = (if n < 10 then [char_of (48 + n)] else show_nat (n div 10) @ [char_of (48 + n mod 10)])"

declare show_nat.simps [simp del]

text \<open>\<^verbatim>\<open>int(ds)\<close> for a string of decimal digits.\<close>

definition digit_val :: "char \<Rightarrow> nat" where
  "digit_val c = of_char c - 48"

definition int_of_digits :: "string \<Rightarrow> nat" where
  "int_of_digits ds = foldl (\<lambda>a c. 10 * a + digit_val c) 0 ds"

section \<open>Name normalizer\<close>

text \<open>\<^verbatim>\<open>sanitize_filename\<close>: colon to underscore, the characters \<^verbatim>\<open><>:"/\|?*\<close> removed,
  white space collapsed, then \<^verbatim>\<open>.strip().rstrip(".")\<close>.\<close>

definition forbidden_chars :: "char list" where
  "forbidden_chars = [CHR ''<'', CHR ''>'', CHR '':'', CHR 0x22, CHR ''/'', CHR 0x5C,
                      CHR ''|'', CHR ''?'', CHR ''*'']"

definition sanitize_filename :: "string \<Rightarrow> string" where
  "sanitize_filename name =
     (let n1 = map (\<lambda>c. if c = CHR '':'' then CHR ''_'' else c) name;
          n2 = filter (\<lambda>c. c \<notin> set forbidden_chars) n1
      in drop_end (\<lambda>c. c = CHR ''.'') (strip (collapse_ws False n2)))"

definition normalize_key :: "string \<Rightarrow> string" where
  "normalize_key s = filter is_lower_alnum (lower s)"

text \<open>\<^verbatim>\<open>re.findall(r"[a-z0-9]+", s.lower())\<close>: the maximal runs of \<^verbatim>\<open>[a-z0-9]\<close>.\<close>

function runs :: "(char \<Rightarrow> bool) \<Rightarrow> string \<Rightarrow> string list" where
  "runs P s =
     (case dropWhile (\<lambda>c. \<not> P c) s of
        [] \<Rightarrow> []
      | c # cs \<Rightarrow> takeWhile P (c # cs) # runs P (dropWhile P (c # cs)))"
  by pat_completeness auto
termination
proof (relation "measure (\<lambda>(P, s). length s)", goal_cases)
  case 1
  show ?case by simp
next
  case (2 P s c cs)
  have pc: "P c"
    using 2 hd_dropWhile [of "\<lambda>c. \<not> P c" s] by (metis list.sel(1) list.distinct(1))
  have "length (dropWhile P cs) \<le> length cs"
    by (rule length_dropWhile_le)
  moreover have "length (c # cs) \<le> length s"
    using length_dropWhile_le [of "\<lambda>c. \<not> P c" s] 2 by simp
  ultimately show ?case using pc by simp
qed

declare runs.simps [simp del]

definition tokenize :: "string \<Rightarrow> string list" where
  "tokenize s = runs is_lower_alnum (lower s)"

text \<open>
  The pitch patterns end in \<^verbatim>\<open>\s*$\<close>, so a match must be followed by white space only:
  the string without its trailing white space has to end, case-insensitively, in
  \<^verbatim>\<open>(word)\<close>. At most one alternative fits, the source's order is kept.
\<close>

definition pitch_words :: "string list" where
  "pitch_words = [''red'', ''yellow'', ''blue'', ''yel'', ''blu'']"

definition paren :: "string \<Rightarrow> string" where
  "paren w = ''('' @ w @ '')''"

definition trailing_tag :: "string list \<Rightarrow> string \<Rightarrow> string option" where
  "trailing_tag ws name = find (\<lambda>w. endswith (lower (rstrip name)) (paren w)) ws"

definition extract_pitch :: "string \<Rightarrow> string option" where
  "extract_pitch name =
     (case trailing_tag pitch_words name of
        None \<Rightarrow> None
      | Some w \<Rightarrow> Some (if w = ''yel'' then ''yellow'' else if w = ''blu'' then ''blue'' else w))"

definition strip_tag :: "string list \<Rightarrow> string \<Rightarrow> string" where
  "strip_tag ws name =
     (case trailing_tag ws name of
        None \<Rightarrow> strip name
      | Some w \<Rightarrow> strip (take (length (rstrip name) - length (paren w)) (rstrip name)))"

definition strip_pitch_suffix :: "string \<Rightarrow> string" where
  "strip_pitch_suffix name = strip_tag pitch_words name"

definition strip_back_suffix :: "string \<Rightarrow> string" where
  "strip_back_suffix name = strip_tag [''back''] name"

section \<open>Paths\<close>

text \<open>
  A \<^verbatim>\<open>pathlib.Path\<close> is the list of its components. \<^verbatim>\<open>name\<close>, \<^verbatim>\<open>parent\<close>, \<^verbatim>\<open>stem\<close>,
  \<^verbatim>\<open>suffix\<close>, \<^verbatim>\<open>str\<close> and the operator \<^verbatim>\<open>/\<close> (with a right operand of at most one
  component) follow \<^verbatim>\<open>PurePosixPath\<close>: the suffix starts at the last dot of the name
  when that dot is neither its first nor its last character.
\<close>

type_synonym path = "string list"

definition path_name :: "path \<Rightarrow> string" where
  "path_name p = (if p = [] then [] else last p)"

definition path_parent :: "path \<Rightarrow> path" where
  "path_parent p = butlast p"

definition path_join :: "path \<Rightarrow> string \<Rightarrow> path" where
  "path_join p n = (if n = [] then p else p @ [n])"

definition ext_split :: "string \<Rightarrow> string \<times> string" where
  "ext_split name =
     (let tail = rev (takeWhile (\<lambda>c. c \<noteq> CHR ''.'') (rev name));
          i = length name - length tail - 1
      in if CHR ''.'' \<in> set name \<and> 0 < i \<and> tail \<noteq> [] then (take i name, drop i name)
         else (name, []))"

definition path_stem :: "path \<Rightarrow> string" where
  "path_stem p = fst (ext_split (path_name p))"

definition path_suffix :: "path \<Rightarrow> string" where
  "path_suffix p = snd (ext_split (path_name p))"

fun join_slash :: "string list \<Rightarrow> string" where
  "join_slash [] = []"
| "join_slash [c] = c"
| "join_slash (c # cs) = c @ ''/'' @ join_slash cs"

definition path_str :: "path \<Rightarrow> string" where
  "path_str p =
     (case p of [] \<Rightarrow> ''.'' | c # cs \<Rightarrow> if c = ''/'' then ''/'' @ join_slash cs else join_slash p)"

section \<open>Catalog indexer\<close>

text \<open>
  The index is a Python dictionary, whose keys keep their insertion order; it is an
  association list with distinct keys. \<open>index_add\<close> is
  \<^verbatim>\<open>index.setdefault(key, []).append(p)\<close>.
\<close>

type_synonym index = "(string \<times> path list) list"

fun index_add :: "string \<Rightarrow> path \<Rightarrow> index \<Rightarrow> index" where
  "index_add k p [] = [(k, [p])]"
| "index_add k p ((k', ps) # rest) =
     (if k' = k then (k', ps @ [p]) # rest else (k', ps) # index_add k p rest)"

text \<open>\<^verbatim>\<open>{e.lower(): i for i, e in enumerate(exts)}\<close>: a later duplicate overwrites an
  earlier one.\<close>

definition ext_order :: "string list \<Rightarrow> string \<Rightarrow> nat option" where
  "ext_order exts = map_of (rev (zip (map lower exts) [0..<length exts]))"

definition sort_rank :: "string list \<Rightarrow> path \<Rightarrow> nat \<times> string" where
  "sort_rank exts x =
     ((case ext_order exts (lower (path_suffix x)) of Some i \<Rightarrow> i | None \<Rightarrow> 999),
      lower (path_str x))"

definition scan_step :: "index \<times> path list \<Rightarrow> path \<Rightarrow> index \<times> path list" where
  "scan_step st p =
     (let key = normalize_key (path_stem p)
      in (if key \<noteq> [] then index_add key p (fst st) else fst st, snd st @ [p]))"

text \<open>
  \<open>scan ext\<close> is the sequence that \<^verbatim>\<open>images_root.rglob(f"*{ext}")\<close> yields, in the order
  in which it yields it; \<open>root_exists\<close> is \<^verbatim>\<open>images_root.exists()\<close>. The third component
  of the result holds the lines written to the error log. \<^verbatim>\<open>list.sort\<close> is stable, as
  \<^const>\<open>sort_key\<close> is.
\<close>

definition log_line :: "string \<Rightarrow> string" where
  "log_line msg = rstrip msg"

definition index_library ::
  "path \<Rightarrow> bool \<Rightarrow> (string \<Rightarrow> path list) \<Rightarrow> string list \<Rightarrow> index \<times> path list \<times> string list" where
  "index_library images_root root_exists scan exts =
     (if \<not> root_exists
      then ([], [], [log_line (''[ERROR] Images directory not found: '' @ path_str images_root)])
      else let st = foldl scan_step ([], []) (concat (map scan exts))
           in (map (\<lambda>(k, paths). (k, sort_key (sort_rank exts) paths)) (fst st), snd st, []))"

section \<open>Card matcher\<close>

text \<open>The exceptions that the modelled code can raise; \<open>OSError\<close> stands for the
  operating system's errors that have no class of their own.\<close>

datatype error = IndexError | FileExistsError | NotADirectoryError | FileNotFoundError
  | IsADirectoryError | OSError

definition prefix_related :: "string \<Rightarrow> string \<Rightarrow> bool" where
  "prefix_related k b = (startswith k b \<or> startswith b k)"

text \<open>
  \<^verbatim>\<open>index[key][0]\<close> raises \<^verbatim>\<open>IndexError\<close> on an empty bucket. \<open>pitch_filter\<close> is the
  list comprehension with \<^verbatim>\<open>re.search(rf"\b{pkw}\b", p.stem.lower())\<close>.
\<close>

definition pitch_filter :: "string option \<Rightarrow> path list \<Rightarrow> path list" where
  "pitch_filter pitch candidates =
     (case pitch of
        None \<Rightarrow> candidates
      | Some pkw \<Rightarrow> filter (\<lambda>p. has_word pkw False (lower (path_stem p))) candidates)"

definition related_entries :: "string \<Rightarrow> index \<Rightarrow> path list" where
  "related_entries b idx = concat (map snd (filter (\<lambda>kv. prefix_related (fst kv) b) idx))"

definition best_match :: "string \<Rightarrow> index \<Rightarrow> error + (path option \<times> path list \<times> bool)" where
  "best_match card_name idx =
     (let pitch = extract_pitch card_name;
          key = normalize_key card_name
      in case map_of idx key of
           Some bucket \<Rightarrow>
             (case bucket of [] \<Rightarrow> Inl IndexError | p # _ \<Rightarrow> Inr (Some p, bucket, True))
         | None \<Rightarrow>
             (let base = (if pitch \<noteq> None then strip_pitch_suffix card_name else card_name);
                  base_key = normalize_key base;
                  candidates = pitch_filter pitch (related_entries base_key idx)
              in case candidates of
                   c # _ \<Rightarrow> Inr (Some c, candidates, False)
                 | [] \<Rightarrow>
                     (let rb_key = normalize_key (strip_back_suffix (strip_pitch_suffix card_name));
                          loose = (if rb_key \<noteq> [] then related_entries rb_key idx else [])
                      in case loose of
                           l # _ \<Rightarrow> Inr (Some l, loose, False)
                         | [] \<Rightarrow> Inr (None, [], False))))"

section \<open>Back-art resolver\<close>

text \<open>
  \<^verbatim>\<open>re.findall(r"\(([^)]{2,})\)", stem)\<close>: at an opening parenthesis the longest run of
  characters other than \<^verbatim>\<open>)\<close> is taken; it is a group when a closing parenthesis
  follows it and it has at least two characters, and the search goes on behind that
  parenthesis. Otherwise the search goes on at the next character.
\<close>

function paren_groups :: "string \<Rightarrow> string list" where
  "paren_groups [] = []"
| "paren_groups (c # cs) =
     (if c = CHR ''(''
         \<and> dropWhile (\<lambda>d. d \<noteq> CHR '')'') cs \<noteq> []
         \<and> 2 \<le> length (takeWhile (\<lambda>d. d \<noteq> CHR '')'') cs)
      then takeWhile (\<lambda>d. d \<noteq> CHR '')'') cs
             # paren_groups (tl (dropWhile (\<lambda>d. d \<noteq> CHR '')'') cs))
      else paren_groups cs)"
  by pat_completeness auto
termination
proof (relation "measure length", goal_cases)
  case 1
  show ?case by simp
next
  case (2 c cs)
  have "length (dropWhile (\<lambda>d. d \<noteq> CHR '')'') cs) \<le> length cs"
    by (rule length_dropWhile_le)
  then show ?case by simp
next
  case (3 c cs)
  show ?case by simp
qed

declare paren_groups.simps [simp del]

text \<open>The deduplication loop: \<open>seen\<close> is the set of keys met so far.\<close>

fun dedup_by :: "('a \<Rightarrow> 'b) \<Rightarrow> 'b list \<Rightarrow> 'a list \<Rightarrow> 'a list" where
  "dedup_by f seen [] = []"
| "dedup_by f seen (p # ps) =
     (if f p \<in> set seen then dedup_by f seen ps else p # dedup_by f (f p # seen) ps)"

definition lookup_bucket :: "index \<Rightarrow> string \<Rightarrow> path list" where
  "lookup_bucket idx k = (case map_of idx k of Some bucket \<Rightarrow> bucket | None \<Rightarrow> [])"

definition back_base :: "string \<Rightarrow> string" where
  "back_base front_card = strip_back_suffix (strip_pitch_suffix front_card)"

text \<open>The names of strategy 1, after \<^verbatim>\<open>filter(None, ...)\<close> has removed the absent one.\<close>

definition explicit_names :: "string \<Rightarrow> path \<Rightarrow> string list" where
  "explicit_names front_card src =
     [back_base front_card @ '' (Back)'']
     @ (case extract_pitch front_card of
          Some pitch \<Rightarrow> [back_base front_card @ '' ('' @ pitch @ '') (Back)'']
        | None \<Rightarrow> [])
     @ [back_base (path_stem src) @ '' (Back)'']"

definition backs_explicit :: "string \<Rightarrow> path \<Rightarrow> index \<Rightarrow> path list" where
  "backs_explicit front_card src idx =
     concat (map (\<lambda>name. lookup_bucket idx (normalize_key name)) (explicit_names front_card src))"

text \<open>Strategy 2: the loop over \<^verbatim>\<open>(front_card, base)\<close> stops at the first key whose
  mapped name is in the index.\<close>

fun backs_override :: "string list \<Rightarrow> (string \<Rightarrow> string option) \<Rightarrow> index \<Rightarrow> path list" where
  "backs_override [] backs_map idx = []"
| "backs_override (key # keys) backs_map idx =
     (case backs_map key of
        None \<Rightarrow> backs_override keys backs_map idx
      | Some b \<Rightarrow>
          (case map_of idx (normalize_key b) of
             None \<Rightarrow> backs_override keys backs_map idx
           | Some bucket \<Rightarrow> bucket))"

definition backs_paren :: "string \<Rightarrow> path list \<Rightarrow> path list" where
  "backs_paren base catalog =
     (if tokenize base \<noteq> []
      then filter (\<lambda>p. list_ex (\<lambda>grp. set (tokenize base) \<subseteq> set (tokenize grp))
                          (paren_groups (path_stem p))) catalog
      else [])"

definition backs_keyword :: "string \<Rightarrow> path list \<Rightarrow> path list" where
  "backs_keyword base catalog =
     filter (\<lambda>p. contains ''back'' (lower (path_stem p))
                 \<and> set (tokenize base) \<subseteq> set (tokenize (lower (path_stem p)))) catalog"

text \<open>The body of \<^verbatim>\<open>find_back_images\<close> behind the cache test: \<open>r1\<close> to \<open>r4\<close> are the
  values of \<^verbatim>\<open>results\<close> after each of the four blocks.\<close>

definition resolve_backs ::
  "string \<Rightarrow> path \<Rightarrow> index \<Rightarrow> path list \<Rightarrow> (string \<Rightarrow> string option) \<Rightarrow> path list" where
  "resolve_backs front_card src idx catalog backs_map =
     (let base = back_base front_card;
          r1 = backs_explicit front_card src idx;
          r2 = (if r1 = [] then backs_override [front_card, base] backs_map idx else r1);
          r3 = (if r2 = [] then backs_paren base catalog else r2);
          r4 = (if r3 = [] then backs_keyword base catalog else r3)
      in dedup_by (\<lambda>p. (path_stem p, lower (path_suffix p))) [] r4)"

text \<open>\<^verbatim>\<open>BACK_CACHE\<close> is threaded through: the function returns the backs and the cache.\<close>

type_synonym back_cache = "string \<Rightarrow> path list option"

definition find_back_images ::
  "back_cache \<Rightarrow> string \<Rightarrow> path \<Rightarrow> index \<Rightarrow> path list \<Rightarrow> (string \<Rightarrow> string option)
     \<Rightarrow> path list \<times> back_cache" where
  "find_back_images cache front_card src idx catalog backs_map =
     (let cache_key = normalize_key front_card
      in case cache cache_key of
           Some cached \<Rightarrow> (cached, cache)
         | None \<Rightarrow>
             (let deduped = resolve_backs front_card src idx catalog backs_map
              in (deduped, cache(cache_key \<mapsto> deduped))))"

section \<open>Reference orderings and sample catalogs\<close>

text \<open>The bucket order in the spec's words: extension rank, then the path string as it
  is, ascending.\<close>

definition spec_rank :: "string list \<Rightarrow> path \<Rightarrow> nat \<times> string" where
  "spec_rank exts x = (fst (sort_rank exts x), path_str x)"

text \<open>A library holding \<^verbatim>\<open>img/Card.png\<close> and \<^verbatim>\<open>img/Card.jpg\<close>, and one holding
  \<^verbatim>\<open>img/aB.png\<close> and \<^verbatim>\<open>img/a_b.png\<close>.\<close>

definition card_scan :: "string \<Rightarrow> path list" where
  "card_scan ext = (if ext = ''.png'' then [[''img'', ''Card.png'']]
                    else if ext = ''.jpg'' then [[''img'', ''Card.jpg'']] else [])"

definition underscore_scan :: "string \<Rightarrow> path list" where
  "underscore_scan ext =
     (if ext = ''.png'' then [[''img'', ''aB.png''], [''img'', ''a_b.png'']] else [])"

text \<open>The invariant of the index: every bucket stands under a non-empty key, which is
  the normalized stem of each of its entries.\<close>

definition keyed :: "index \<Rightarrow> bool" where
  "keyed idx = list_all (\<lambda>kv. fst kv \<noteq> []
                  \<and> list_all (\<lambda>p. normalize_key (path_stem p) = fst kv) (snd kv)) idx"

text \<open>A library holding \<^verbatim>\<open>img/---.png\<close>, whose stem has no alphanumeric character, and
  \<^verbatim>\<open>img/Card.png\<close>.\<close>

definition dash_scan :: "string \<Rightarrow> path list" where
  "dash_scan ext = (if ext = ''.png'' then [[''img'', ''---.png''], [''img'', ''Card.png'']] else [])"

text \<open>"First non-empty strategy wins", in the spec's words.\<close>

fun first_nonempty :: "'a list list \<Rightarrow> 'a list" where
  "first_nonempty [] = []"
| "first_nonempty (r # rs) = (if r \<noteq> [] then r else first_nonempty rs)"

text \<open>
  Libraries of \<^verbatim>\<open>.png\<close> files under \<^verbatim>\<open>img\<close>, indexed by \<open>index_library\<close>: one with
  \<^verbatim>\<open>X.png\<close>, an explicit back for it and a file an override map may name; one where the
  front file is \<^verbatim>\<open>Xred.png\<close>; one with a file \<^verbatim>\<open>Card (Back) (Back).png\<close>; and one with
  \<^verbatim>\<open>Embers Call.png\<close> and \<^verbatim>\<open>Tome (Embers Call).png\<close>.
\<close>

definition sample_library :: "path list \<Rightarrow> index \<times> path list \<times> string list" where
  "sample_library files =
     index_library [''img''] True (\<lambda>ext. if ext = ''.png'' then files else []) [''.png'']"

definition sample_index :: "path list \<Rightarrow> index" where
  "sample_index files = fst (sample_library files)"

definition sample_catalog :: "path list \<Rightarrow> path list" where
  "sample_catalog files = fst (snd (sample_library files))"

definition xback_files :: "path list" where
  "xback_files = [[''img'', ''X.png''], [''img'', ''X (Back).png''], [''img'', ''Other.png'']]"

definition xred_files :: "path list" where
  "xred_files = [[''img'', ''Xred.png''], [''img'', ''X (Back).png''], [''img'', ''Other.png'']]"

definition cardback_files :: "path list" where
  "cardback_files = [[''img'', ''Card.png''], [''img'', ''Card (Back) (Back).png''],
                     [''img'', ''Other.png'']]"

definition ember_scan :: "string \<Rightarrow> path list" where
  "ember_scan ext =
     (if ext = ''.png'' then [[''img'', ''Embers Call.png''], [''img'', ''Tome (Embers Call).png'']]
      else [])"

definition ember_index :: index where
  "ember_index = fst (index_library [''img''] True ember_scan [''.png''])"

definition ember_catalog :: "path list" where
  "ember_catalog = fst (snd (index_library [''img''] True ember_scan [''.png'']))"

section \<open>File system\<close>

text \<open>
  The disk is an association list from paths to nodes; a file carries its text. The empty
  path is the directory the relative paths start from. A path is a directory when it and
  each of its ancestors is bound to \<open>Dir\<close>; it exists when its parent is a directory and
  it is bound. \<open>mkdir\<close> is \<^verbatim>\<open>Path.mkdir(parents=True, exist_ok=True)\<close>, \<open>rename\<close> is
  \<^verbatim>\<open>Path.rename\<close> and \<open>copy2\<close> is \<^verbatim>\<open>shutil.copy2\<close>, with the errors of a POSIX system.
\<close>

datatype node = Dir | File string

type_synonym filesystem = "(path \<times> node) list"

definition prefixes :: "path \<Rightarrow> path list" where
  "prefixes p = map (\<lambda>n. take n p) [1..<Suc (length p)]"

definition is_dir :: "filesystem \<Rightarrow> path \<Rightarrow> bool" where
  "is_dir f p = list_all (\<lambda>q. map_of f q = Some Dir) (prefixes p)"

definition path_exists :: "filesystem \<Rightarrow> path \<Rightarrow> bool" where
  "path_exists f p = (is_dir f (path_parent p) \<and> (p = [] \<or> map_of f p \<noteq> None))"

definition is_file :: "filesystem \<Rightarrow> path \<Rightarrow> bool" where
  "is_file f p = (path_exists f p \<and> \<not> is_dir f p)"

definition put :: "filesystem \<Rightarrow> path \<Rightarrow> node \<Rightarrow> filesystem" where
  "put f p n = filter (\<lambda>e. fst e \<noteq> p) f @ [(p, n)]"

definition add_dir :: "filesystem \<Rightarrow> path \<Rightarrow> filesystem" where
  "add_dir f q = (if map_of f q = Some Dir then f else put f q Dir)"

definition mkdir :: "filesystem \<Rightarrow> path \<Rightarrow> error + filesystem" where
  "mkdir f p =
     (if is_dir f p then Inr f
      else if is_file f p then Inl FileExistsError
      else if list_ex (is_file f) (prefixes p) then Inl NotADirectoryError
      else Inr (foldl add_dir f (prefixes p)))"

text \<open>\<open>is_under p d\<close>: \<open>p\<close> is \<open>d\<close> or lies below it.\<close>

definition is_under :: "path \<Rightarrow> path \<Rightarrow> bool" where
  "is_under p d = (take (length d) p = d)"

text \<open>The reason for which a path cannot be entered: one of its ancestors is a regular
  file, or is missing.\<close>

definition no_entry :: "filesystem \<Rightarrow> path \<Rightarrow> error" where
  "no_entry f p = (if list_ex (is_file f) (prefixes p) then NotADirectoryError
                   else FileNotFoundError)"

text \<open>The callers rename a directory to a path that they have found not to exist; for a
  target that exists the model answers \<^verbatim>\<open>FileExistsError\<close>.\<close>

definition rename :: "filesystem \<Rightarrow> path \<Rightarrow> path \<Rightarrow> error + filesystem" where
  "rename f src dst =
     (if src = [] \<or> dst = [] \<or> (is_under dst src \<and> dst \<noteq> src) then Inl OSError
      else if \<not> path_exists f src then Inl (no_entry f src)
      else if \<not> is_dir f (path_parent dst) then Inl (no_entry f dst)
      else if dst = src then Inr f
      else if path_exists f dst then Inl FileExistsError
      else Inr (map (\<lambda>(p, n). if is_under p src then (dst @ drop (length src) p, n) else (p, n)) f))"

definition copy2 :: "filesystem \<Rightarrow> path \<Rightarrow> path \<Rightarrow> error + filesystem" where
  "copy2 f src dst =
     (if is_dir f src then Inl IsADirectoryError
      else if \<not> path_exists f src then Inl (no_entry f src)
      else let target = (if is_dir f dst then path_join dst (path_name src) else dst)
           in if target = src then Inl OSError
              else if is_dir f target then Inl IsADirectoryError
              else if \<not> is_dir f (path_parent target) then Inl (no_entry f target)
              else (case map_of f src of
                      Some (File content) \<Rightarrow> Inr (put f target (File content))
                    | _ \<Rightarrow> Inl (no_entry f src)))"

text \<open>Opening a file for appending and writing a text to it.\<close>

definition append_text :: "filesystem \<Rightarrow> path \<Rightarrow> string \<Rightarrow> error + filesystem" where
  "append_text f p txt =
     (if is_dir f p then Inl IsADirectoryError
      else if \<not> is_dir f (path_parent p) then Inl (no_entry f p)
      else Inr (put f p (File ((case map_of f p of Some (File content) \<Rightarrow> content | _ \<Rightarrow> []) @ txt))))"

text \<open>\<^verbatim>\<open>log\<close>: the console output is not modelled.\<close>

definition log :: "string \<Rightarrow> path \<Rightarrow> filesystem \<Rightarrow> error + filesystem" where
  "log msg error_log f =
     (case mkdir f (path_parent error_log) of
        Inl e \<Rightarrow> Inl e
      | Inr f1 \<Rightarrow> append_text f1 error_log (rstrip msg @ [CHR 0x0A]))"

section \<open>Folder ledger\<close>

text \<open>\<^verbatim>\<open>folder_claims\<close> is a dictionary from folder names to deck keys: an association
  list with \<open>dict_set\<close> for \<^verbatim>\<open>d[k] = v\<close> and \<open>setdefault\<close> for \<^verbatim>\<open>d.setdefault(k, v)\<close>.\<close>

type_synonym claims = "(string \<times> string) list"

fun dict_set :: "string \<Rightarrow> string \<Rightarrow> claims \<Rightarrow> claims" where
  "dict_set k v [] = [(k, v)]"
| "dict_set k v ((k', v') # rest) =
     (if k' = k then (k', v) # rest else (k', v') # dict_set k v rest)"

definition setdefault :: "string \<Rightarrow> string \<Rightarrow> claims \<Rightarrow> claims" where
  "setdefault k v d = (if map_of d k = None then d @ [(k, v)] else d)"

text \<open>\<^verbatim>\<open>sanitize_filename(f"{base_name} (variant {n})")\<close>.\<close>

definition variant_name :: "string \<Rightarrow> nat \<Rightarrow> string" where
  "variant_name base_name n = sanitize_filename (base_name @ '' (variant '' @ show_nat n @ '')'')"

text \<open>The test of the \<^verbatim>\<open>while True\<close> loop of \<^verbatim>\<open>choose_dest_dir\<close>, negated: the candidate
  exists on disk or is claimed.\<close>

definition variant_taken :: "filesystem \<Rightarrow> path \<Rightarrow> string \<Rightarrow> claims \<Rightarrow> nat \<Rightarrow> bool" where
  "variant_taken f base_dir base_name folder_claims n =
     (path_exists f (path_join base_dir (variant_name base_name n))
      \<or> map_of folder_claims (variant_name base_name n) \<noteq> None)"

text \<open>
  The loop ends: a candidate's name holds the digits of \<open>n\<close>, so it is longer than every
  name on the disk and in the ledger once \<open>n\<close> has more digits than the longest of them.
\<close>

definition known_names :: "filesystem \<Rightarrow> claims \<Rightarrow> string list" where
  "known_names f folder_claims = concat (map fst f) @ map fst folder_claims"

definition longest :: "string list \<Rightarrow> nat" where
  "longest names = foldr (\<lambda>s m. max (length s) m) names 0"

lemma filter_dropWhile_disjoint:
  "(\<And>c. P c \<Longrightarrow> \<not> Q c) \<Longrightarrow> filter Q (dropWhile P s) = filter Q s"
  by (induction s) auto

lemma filter_drop_end_disjoint:
  assumes "\<And>c. P c \<Longrightarrow> \<not> Q c"
  shows "filter Q (drop_end P s) = filter Q s"
proof -
  have "filter Q (drop_end P s) = rev (filter Q (dropWhile P (rev s)))"
    by (simp add: drop_end_def rev_filter)
  also have "\<dots> = rev (filter Q (rev s))"
    using assms by (simp add: filter_dropWhile_disjoint)
  finally show ?thesis by (simp add: rev_filter)
qed

lemma is_digit_nat: "is_digit c \<longleftrightarrow> 48 \<le> (of_char c :: nat) \<and> (of_char c :: nat) \<le> 57"
  by (simp add: is_digit_def less_eq_char_def)

lemma space_not_digit: "is_space c \<Longrightarrow> \<not> is_digit c"
  by (auto simp add: is_space_def is_digit_nat)

lemma digit_not_forbidden: "is_digit c \<Longrightarrow> c \<notin> set forbidden_chars \<and> c \<noteq> CHR '':'' \<and> c \<noteq> CHR ''.''"
  by (auto simp add: forbidden_chars_def is_digit_nat)

lemma underscore_not_digit: "\<not> is_digit (CHR ''_'')"
  by (simp add: is_digit_nat)

lemma show_nat_digits: "list_all is_digit (show_nat n)"
proof (induction n rule: show_nat.induct)
  case (1 n)
  have d: "\<And>k::nat. k < 10 \<Longrightarrow> is_digit (char_of (48 + k))"
    by (simp add: is_digit_nat)
  show ?case
  proof (cases "n < 10")
    case True
    then show ?thesis by (subst show_nat.simps) (simp add: d)
  next
    case False
    with 1 have "list_all is_digit (show_nat (n div 10))" by simp
    with False show ?thesis by (subst show_nat.simps) (simp add: d)
  qed
qed

lemma show_nat_bound: "n < 10 ^ length (show_nat n)"
proof (induction n rule: show_nat.induct)
  case (1 n)
  show ?case
  proof (cases "n < 10")
    case True
    then show ?thesis by (subst show_nat.simps) simp
  next
    case False
    with 1 have ih: "n div 10 < 10 ^ length (show_nat (n div 10))" by simp
    have "n < 10 * (n div 10 + 1)" by presburger
    also have "\<dots> \<le> 10 * 10 ^ length (show_nat (n div 10))" using ih by simp
    finally show ?thesis using False by (subst show_nat.simps) simp
  qed
qed

lemma blank_not_digit: "\<not> is_digit (CHR '' '')"
  by (simp add: is_digit_nat)

lemma filter_digit_collapse: "filter is_digit (collapse_ws b s) = filter is_digit s"
  by (induction s arbitrary: b) (simp_all add: space_not_digit blank_not_digit)

lemma filter_digit_colon:
  "filter is_digit (map (\<lambda>c. if c = CHR '':'' then CHR ''_'' else c) s) = filter is_digit s"
  by (induction s) (auto simp add: underscore_not_digit dest: digit_not_forbidden)

lemma filter_digit_forbidden:
  "filter is_digit (filter (\<lambda>c. c \<notin> set forbidden_chars) s) = filter is_digit s"
  by (induction s) (auto dest: digit_not_forbidden)

lemma sanitize_keeps_digits: "filter is_digit (sanitize_filename s) = filter is_digit s"
proof -
  let ?n1 = "map (\<lambda>c. if c = CHR '':'' then CHR ''_'' else c) s"
  let ?n2 = "filter (\<lambda>c. c \<notin> set forbidden_chars) ?n1"
  have a: "filter is_digit ?n1 = filter is_digit s"
    by (rule filter_digit_colon)
  have b: "filter is_digit ?n2 = filter is_digit ?n1"
    by (rule filter_digit_forbidden)
  have "filter is_digit (sanitize_filename s)
        = filter is_digit (strip (collapse_ws False ?n2))"
    unfolding sanitize_filename_def Let_def
    by (rule filter_drop_end_disjoint) (auto dest: digit_not_forbidden)
  also have "\<dots> = filter is_digit (collapse_ws False ?n2)"
    unfolding strip_def rstrip_def lstrip_def
    by (simp add: filter_drop_end_disjoint filter_dropWhile_disjoint space_not_digit)
  also have "\<dots> = filter is_digit s"
    by (simp only: filter_digit_collapse b a)
  finally show ?thesis .
qed

lemma variant_name_length: "length (show_nat n) \<le> length (variant_name b n)"
proof -
  have "filter is_digit (show_nat n) = show_nat n"
    using show_nat_digits [of n] by (simp add: list_all_iff)
  then have "length (show_nat n) \<le> length (filter is_digit (b @ '' (variant '' @ show_nat n @ '')''))"
    by simp
  also have "\<dots> = length (filter is_digit (variant_name b n))"
    by (simp only: variant_name_def sanitize_keeps_digits)
  also have "\<dots> \<le> length (variant_name b n)" by (rule length_filter_le)
  finally show ?thesis .
qed


lemma longest_bound: "s \<in> set names \<Longrightarrow> length s \<le> longest names"
  by (induction names) (auto simp add: longest_def)

lemma variant_name_nonempty: "variant_name b n \<noteq> []"
proof -
  have "0 < length (show_nat n)" by (subst show_nat.simps) simp
  with variant_name_length [of n b] show ?thesis by auto
qed

lemma variant_taken_known:
  assumes "variant_taken f base_dir base_name claims n"
  shows "variant_name base_name n \<in> set (known_names f claims)"
proof -
  let ?v = "variant_name base_name n"
  from assms consider "map_of f (base_dir @ [?v]) \<noteq> None" | "map_of claims ?v \<noteq> None"
    by (auto simp add: variant_taken_def path_exists_def path_join_def variant_name_nonempty)
  then show ?thesis
  proof cases
    case 1
    then obtain nd where "(base_dir @ [?v], nd) \<in> set f" by (auto dest: map_of_SomeD)
    then have "base_dir @ [?v] \<in> set (map fst f)" by force
    moreover have "?v \<in> set (base_dir @ [?v])" by simp
    ultimately have "?v \<in> set (concat (map fst f))" unfolding set_concat by blast
    then show ?thesis by (simp add: known_names_def)
  next
    case 2
    then obtain k where "(?v, k) \<in> set claims" by (auto dest: map_of_SomeD)
    then have "?v \<in> set (map fst claims)" by force
    then show ?thesis by (simp add: known_names_def)
  qed
qed

lemma variant_taken_bound:
  assumes "variant_taken f base_dir base_name claims n"
  shows "n < 10 ^ longest (known_names f claims)"
proof -
  have "length (show_nat n) \<le> length (variant_name base_name n)" by (rule variant_name_length)
  also have "\<dots> \<le> longest (known_names f claims)"
    using assms by (intro longest_bound variant_taken_known)
  finally have "(10::nat) ^ length (show_nat n) \<le> 10 ^ longest (known_names f claims)"
    by (intro power_increasing) simp_all
  with show_nat_bound [of n] show ?thesis by (rule less_le_trans)
qed

text \<open>The loop \<^verbatim>\<open>while True: ... n += 1\<close>, entered with \<open>n\<close>: it returns the first number
  from \<open>n\<close> on whose candidate is free.\<close>

function variant_loop ::
  "filesystem \<Rightarrow> path \<Rightarrow> string \<Rightarrow> claims \<Rightarrow> nat \<Rightarrow> nat" where
  "variant_loop f base_dir base_name claims n =
     (if \<not> variant_taken f base_dir base_name claims n then n
      else variant_loop f base_dir base_name claims (Suc n))"
  by pat_completeness auto
termination
proof (relation "measure (\<lambda>(f, base_dir, base_name, claims, n).
                   10 ^ longest (known_names f claims) - n)", goal_cases)
  case 1
  show ?case by simp
next
  case (2 f base_dir base_name claims n)
  then have "n < 10 ^ longest (known_names f claims)" by (simp add: variant_taken_bound)
  then show ?case by simp
qed

declare variant_loop.simps [simp del]

text \<open>
  \<^verbatim>\<open>choose_dest_dir\<close>. The snapshot \<^verbatim>\<open>existing_dirs_start\<close> is a set of names, here a list
  with membership; the ledger and the disk, which the source mutates, are passed in and
  returned. An exception of \<^verbatim>\<open>mkdir\<close> or \<^verbatim>\<open>log\<close> leaves the function. In the collision
  branch the candidate is unclaimed and \<open>base_name\<close> is claimed, so they differ and
  \<^verbatim>\<open>folder_claims[base_name]\<close>, read for the message after the candidate was claimed, is the
  key found by the test.
\<close>

definition variant_message :: "string \<Rightarrow> string \<Rightarrow> string \<Rightarrow> string \<Rightarrow> string" where
  "variant_message base_name owner variant deck_key =
     ''[VARIANT] '' @ [CHR 0x27] @ base_name @ [CHR 0x27] @ '' already claimed by ''
       @ [CHR 0x27] @ owner @ [CHR 0x27] @ ''. Created '' @ [CHR 0x27] @ variant @ [CHR 0x27]
       @ '' for '' @ [CHR 0x27] @ deck_key @ [CHR 0x27] @ ''.''"

definition choose_dest_dir ::
  "path \<Rightarrow> string \<Rightarrow> string \<Rightarrow> string list \<Rightarrow> claims \<Rightarrow> path \<Rightarrow> filesystem
     \<Rightarrow> error + (path \<times> claims \<times> filesystem)" where
  "choose_dest_dir base_dir base_name0 deck_key existing_dirs_start folder_claims error_log f =
     (let base_name = sanitize_filename base_name0;
          target = path_join base_dir base_name
      in if base_name \<in> set existing_dirs_start \<or> path_exists f target
         then (case mkdir f target of
                 Inl e \<Rightarrow> Inl e
               | Inr f1 \<Rightarrow> Inr (target, setdefault base_name deck_key folder_claims, f1))
         else (case map_of folder_claims base_name of
                 Some owner \<Rightarrow>
                   if owner \<noteq> deck_key
                   then (let n = variant_loop f base_dir base_name folder_claims 2;
                             variant = variant_name base_name n;
                             vpath = path_join base_dir variant
                         in case mkdir f vpath of
                              Inl e \<Rightarrow> Inl e
                            | Inr f1 \<Rightarrow>
                                (case log (variant_message base_name owner variant deck_key)
                                        error_log f1 of
                                   Inl e \<Rightarrow> Inl e
                                 | Inr f2 \<Rightarrow> Inr (vpath, dict_set variant deck_key folder_claims, f2)))
                   else (case mkdir f target of
                           Inl e \<Rightarrow> Inl e
                         | Inr f1 \<Rightarrow> Inr (target, dict_set base_name deck_key folder_claims, f1))
               | None \<Rightarrow>
                   (case mkdir f target of
                      Inl e \<Rightarrow> Inl e
                    | Inr f1 \<Rightarrow> Inr (target, dict_set base_name deck_key folder_claims, f1))))"

text \<open>
  \<^verbatim>\<open>rename_with_suffix\<close>. \<open>error_text\<close> stands for the text Python prints for an
  exception. The second loop of the source tests the disk only: it is the loop above with
  an empty ledger.
\<close>

definition try_rename ::
  "path \<Rightarrow> path \<Rightarrow> string \<Rightarrow> path \<Rightarrow> (error \<Rightarrow> string) \<Rightarrow> filesystem
     \<Rightarrow> error + (path \<times> filesystem)" where
  "try_rename dest_dir new_path shown error_log error_text f =
     (case rename f dest_dir new_path of
        Inr f1 \<Rightarrow> Inr (new_path, f1)
      | Inl e \<Rightarrow>
          (case log (''[RENAME-ERROR] '' @ path_name dest_dir @ '' -> '' @ shown
                       @ '' :: '' @ error_text e) error_log f of
             Inl e' \<Rightarrow> Inl e'
           | Inr f1 \<Rightarrow> Inr (dest_dir, f1)))"

definition rename_with_suffix ::
  "path \<Rightarrow> string \<Rightarrow> path \<Rightarrow> (error \<Rightarrow> string) \<Rightarrow> filesystem \<Rightarrow> error + (path \<times> filesystem)" where
  "rename_with_suffix dest_dir suffix error_log error_text f =
     (let parent = path_parent dest_dir;
          base = path_name dest_dir
      in if endswith base suffix then Inr (dest_dir, f)
         else let new_name = sanitize_filename (base @ '' '' @ suffix);
                  new_path = path_join parent new_name
              in if \<not> path_exists f new_path
                 then try_rename dest_dir new_path new_name error_log error_text f
                 else let candidate = path_join parent
                            (variant_name new_name (variant_loop f parent new_name [] 2))
                      in try_rename dest_dir candidate (path_name candidate)
                           error_log error_text f)"

section \<open>Decklist parser\<close>

text \<open>
  \<^verbatim>\<open>str.splitlines\<close>: the text is cut behind every line boundary, \<^verbatim>\<open>\r\n\<close> counting as
  one, and a last line without boundary is kept when it is not empty. \<open>cur\<close> is the line
  read so far.
\<close>

definition is_line_break :: "char \<Rightarrow> bool" where
  "is_line_break c = (c \<in> set [CHR 0x0A, CHR 0x0B, CHR 0x0C, CHR 0x0D, CHR 0x1C, CHR 0x1D,
                                CHR 0x1E, CHR 0x85])"

fun split_lines :: "string \<Rightarrow> string \<Rightarrow> string list" where
  "split_lines cur [] = (if cur = [] then [] else [cur])"
| "split_lines cur [c] = (if is_line_break c then [cur] else [cur @ [c]])"
| "split_lines cur (c # d # cs) =
     (if c = CHR 0x0D \<and> d = CHR 0x0A then cur # split_lines [] cs
      else if is_line_break c then cur # split_lines [] (d # cs)
      else split_lines (cur @ [c]) (d # cs))"

definition splitlines :: "string \<Rightarrow> string list" where
  "splitlines text = split_lines [] text"

text \<open>
  A header pattern \<^verbatim>\<open>^\s*(kw)\s*:\s*(.+)$\<close> under \<^verbatim>\<open>re.IGNORECASE\<close>, for the alternatives
  \<open>kws\<close>: the value is the stripped last group. The group needs one character behind the
  colon; when only white space follows the colon the group is a white space character and
  the stripped value is empty.
\<close>

definition header_value :: "string list \<Rightarrow> string \<Rightarrow> string option" where
  "header_value kws ln =
     (let s = lstrip ln
      in case find (\<lambda>kw. startswith (lower s) kw
                            \<and> (case lstrip (drop (length kw) s) of
                                  c # rest \<Rightarrow> c = CHR '':'' \<and> rest \<noteq> []
                                | [] \<Rightarrow> False)) kws of
           None \<Rightarrow> None
         | Some kw \<Rightarrow> Some (strip (tl (lstrip (drop (length kw) s)))))"

text \<open>\<^verbatim>\<open>HEADER_KEYS\<close>, in the order of the dictionary, each key with the alternatives of its
  pattern. The header values are a function from these keys, empty at first.\<close>

definition HEADER_KEYS :: "(string \<times> string list) list" where
  "HEADER_KEYS = [(''title'', [''title'']), (''identity'', [''identity'']), (''deck'', [''deck'']),
                  (''hero'', [''hero'']), (''commander'', [''commander'']),
                  (''side'', [''side'', ''faction'']), (''game'', [''game''])]"

definition read_header_line :: "(string \<Rightarrow> string) \<Rightarrow> string \<Rightarrow> (string \<Rightarrow> string)" where
  "read_header_line h ln =
     foldl (\<lambda>h kv. case header_value (snd kv) ln of None \<Rightarrow> h | Some v \<Rightarrow> h(fst kv := v))
       h HEADER_KEYS"

text \<open>
  \<^verbatim>\<open>PAT_COUNT_X_NAME\<close>, \<^verbatim>\<open>^\s*(\d+)\s*[xX]\s+(.+?)\s*$\<close>, matched against the stripped
  line: the digits, an \<^verbatim>\<open>x\<close>, white space, and the rest, which is not empty and has no
  white space at its end because the line is stripped. The name with a pitch tag is
  rewritten to the stripped name followed by the canonical pitch in parentheses.
\<close>

definition parse_card_line :: "string \<Rightarrow> (nat \<times> string) option" where
  "parse_card_line ln =
     (let s = strip ln;
          ds = takeWhile is_digit s;
          r1 = lstrip (dropWhile is_digit s)
      in case r1 of
           [] \<Rightarrow> None
         | x # r2 \<Rightarrow>
             if ds \<noteq> [] \<and> (x = CHR ''x'' \<or> x = CHR ''X'') \<and> r2 \<noteq> [] \<and> is_space (hd r2)
                \<and> lstrip r2 \<noteq> []
             then (let nm = strip (lstrip r2)
                   in Some (int_of_digits ds,
                            case extract_pitch nm of
                              Some pitch \<Rightarrow> strip_pitch_suffix nm @ '' ('' @ pitch @ '')''
                            | None \<Rightarrow> nm))
             else None)"

text \<open>\<^verbatim>\<open>parse_deck_file\<close>, applied to the path and the text of the decklist.\<close>

definition parse_deck_file ::
  "path \<Rightarrow> string \<Rightarrow> bool \<Rightarrow> string \<times> string \<times> string \<times> (nat \<times> string) list" where
  "parse_deck_file deck_path text prefer_identity =
     (let lines = map rstrip (splitlines text);
          h = foldl read_header_line (\<lambda>key. []) (take 100 lines);
          candidates = [if prefer_identity then h ''identity'' else [],
                        if prefer_identity then h ''hero'' else [],
                        if prefer_identity then h ''commander'' else [],
                        h ''deck'', h ''title'', path_stem deck_path];
          deck_display = (case filter (\<lambda>c. c \<noteq> []) candidates of
                            c # _ \<Rightarrow> c
                          | [] \<Rightarrow> path_stem deck_path)
      in (deck_display, h ''side'', h ''game'', List.map_filter parse_card_line lines))"

section \<open>Folder naming\<close>

text \<open>\<open>format\<close> stands for \<^verbatim>\<open>name_template.format(game=, side=, deck=, file=)\<close>, which may
  raise.\<close>

definition compose_folder_base ::
  "string \<Rightarrow> string \<Rightarrow> string \<Rightarrow> string \<Rightarrow> string \<Rightarrow> string
     \<Rightarrow> (string \<Rightarrow> string \<Rightarrow> string \<Rightarrow> string \<Rightarrow> string \<Rightarrow> error + string) \<Rightarrow> error + string" where
  "compose_folder_base deck_display side0 game_cli game_header filename_stem name_template format =
     (let game = strip (if game_header \<noteq> [] then game_header else game_cli);
          deck = strip deck_display;
          side = strip side0;
          file_stem = strip filename_stem
      in if name_template \<noteq> [] then format name_template game side deck file_stem
         else if game \<noteq> [] \<and> side \<noteq> [] then Inr (game @ '' - '' @ side @ '' - '' @ deck)
         else if game \<noteq> [] \<and> side = [] then Inr (game @ '' - '' @ deck)
         else if side \<noteq> [] \<and> game = [] then Inr (side @ '' - '' @ deck)
         else Inr deck)"

section \<open>The run\<close>

text \<open>
  The command line after \<^verbatim>\<open>parse_args\<close>, with what \<^verbatim>\<open>main\<close> reads from outside the
  output root: \<open>args_scan ext\<close> is the sequence \<^verbatim>\<open>images_root.rglob(f"*{ext}")\<close> yields,
  \<open>args_backs_map\<close> the dictionary \<^verbatim>\<open>load_backs_map\<close> returns, \<open>args_format\<close> the method
  \<^verbatim>\<open>str.format\<close> and \<open>args_error_text\<close> the text Python prints for an exception. The
  decklists are passed to \<open>main\<close> as the sorted list \<^verbatim>\<open>deck_files\<close>, each path with the text
  \<^verbatim>\<open>read_text\<close> returns. The progress display and the console are not modelled.
\<close>

record args =
  args_images :: path
  args_output :: path
  args_exts :: "string list"
  args_game :: string
  args_by_identity :: bool
  args_name_template :: string
  args_scan :: "string \<Rightarrow> path list"
  args_backs_map :: "string \<Rightarrow> string option"
  args_format :: "string \<Rightarrow> string \<Rightarrow> string \<Rightarrow> string \<Rightarrow> string \<Rightarrow> error + string"
  args_error_text :: "error \<Rightarrow> string"

text \<open>What a run mutates: the ledger, \<^verbatim>\<open>BACK_CACHE\<close> and the disk.\<close>

record run_state =
  st_claims :: claims
  st_cache :: back_cache
  st_disk :: filesystem

text \<open>One round of a copy loop: \<open>what\<close> is the text of the error message, \<open>label\<close> the
  start of the output name.\<close>

definition copy_one ::
  "string \<Rightarrow> string \<Rightarrow> string \<Rightarrow> path \<Rightarrow> path \<Rightarrow> nat \<Rightarrow> path \<Rightarrow> (error \<Rightarrow> string) \<Rightarrow> nat
     \<Rightarrow> filesystem \<Rightarrow> error + filesystem" where
  "copy_one deck_name what label src dest_dir qty error_log error_text i f =
     (let out_name = label @ '' - '' @ show_nat i @ '' of '' @ show_nat qty @ lower (path_suffix src);
          out_path = path_join dest_dir out_name
      in if path_exists f out_path
         then log (''[SKIP-EXISTS] '' @ deck_name @ '' | '' @ path_name out_path) error_log f
         else (case copy2 f src out_path of
                 Inr f1 \<Rightarrow> Inr f1
               | Inl e \<Rightarrow> log (''[COPY-ERROR] '' @ deck_name @ '' | '' @ what @ '' -> ''
                                @ path_name out_path @ '' :: '' @ error_text e) error_log f))"

text \<open>A \<^verbatim>\<open>for\<close> loop whose body may raise.\<close>

fun for_each :: "('a \<Rightarrow> 's \<Rightarrow> error + 's) \<Rightarrow> 'a list \<Rightarrow> 's \<Rightarrow> error + 's" where
  "for_each body [] s = Inr s"
| "for_each body (x # xs) s = (case body x s of Inl e \<Rightarrow> Inl e | Inr s1 \<Rightarrow> for_each body xs s1)"

definition join_comma :: "string list \<Rightarrow> string" where
  "join_comma names = (case names of [] \<Rightarrow> [] | n # ns \<Rightarrow> foldl (\<lambda>a b. a @ '', '' @ b) n ns)"

text \<open>The body of the loop over the entries of a deck; the flag is
  \<^verbatim>\<open>unique_back_used\<close>.\<close>

definition handle_card ::
  "args \<Rightarrow> index \<Rightarrow> path list \<Rightarrow> path \<Rightarrow> string \<Rightarrow> path \<Rightarrow> nat \<times> string
     \<Rightarrow> bool \<times> run_state \<Rightarrow> error + (bool \<times> run_state)" where
  "handle_card a idx catalog error_log deck_name dest_dir entry s =
     (let qty = fst entry; card = snd entry; st = snd s
      in case best_match card idx of
           Inl e \<Rightarrow> Inl e
         | Inr (None, candidates, is_exact) \<Rightarrow>
             (case log (''[MISSING] '' @ deck_name @ '' | '' @ card @ '' (x'' @ show_nat qty
                         @ '') not found under '' @ path_str (args_images a))
                     error_log (st_disk st) of
                Inl e \<Rightarrow> Inl e
              | Inr f1 \<Rightarrow> Inr (fst s, st\<lparr>st_disk := f1\<rparr>))
         | Inr (Some src, candidates, is_exact) \<Rightarrow>
             (case for_each (copy_one deck_name card (sanitize_filename card) src dest_dir qty
                               error_log (args_error_text a))
                     [1..<Suc qty] (st_disk st) of
                Inl e \<Rightarrow> Inl e
              | Inr f1 \<Rightarrow>
                  (case (if \<not> is_exact \<and> 1 < length candidates
                         then log (''[AMBIGUOUS] '' @ deck_name @ '' | '' @ card
                                     @ '' matched multiple files; used '' @ [CHR 0x27]
                                     @ path_name src @ [CHR 0x27] @ ''. Candidates: ''
                                     @ join_comma (map path_name (take 3 candidates)))
                                error_log f1
                         else Inr f1) of
                     Inl e \<Rightarrow> Inl e
                   | Inr f2 \<Rightarrow>
                       (let found = find_back_images (st_cache st) card src idx catalog
                                      (args_backs_map a);
                            backs = fst found;
                            base_req = strip_back_suffix (strip_pitch_suffix card)
                        in case backs of
                             [] \<Rightarrow> Inr (fst s, st\<lparr>st_cache := snd found, st_disk := f2\<rparr>)
                           | back_path # _ \<Rightarrow>
                               (case for_each (copy_one deck_name (base_req @ '' (Back)'')
                                                 (sanitize_filename base_req @ '' (Back)'')
                                                 back_path dest_dir qty error_log
                                                 (args_error_text a))
                                       [1..<Suc qty] f2 of
                                  Inl e \<Rightarrow> Inl e
                                | Inr f3 \<Rightarrow>
                                    Inr (True, st\<lparr>st_cache := snd found, st_disk := f3\<rparr>))))))"

definition handle_deck ::
  "args \<Rightarrow> index \<Rightarrow> path list \<Rightarrow> path \<Rightarrow> string list \<Rightarrow> path \<times> string \<Rightarrow> run_state
     \<Rightarrow> error + run_state" where
  "handle_deck a idx catalog error_log existing_dirs_start deck st =
     (let deck_path = fst deck;
          parsed = parse_deck_file deck_path (snd deck) (args_by_identity a);
          deck_display = fst parsed;
          side = fst (snd parsed);
          game_header = fst (snd (snd parsed));
          entries = snd (snd (snd parsed))
      in if entries = []
         then (case log (''[WARN] No cards parsed from '' @ path_name deck_path @ ''; skipping.'')
                       error_log (st_disk st) of
                 Inl e \<Rightarrow> Inl e
               | Inr f1 \<Rightarrow> Inr (st\<lparr>st_disk := f1\<rparr>))
         else (case compose_folder_base deck_display side (args_game a) game_header
                      (path_stem deck_path) (args_name_template a) (args_format a) of
                 Inl e \<Rightarrow> Inl e
               | Inr folder_base \<Rightarrow>
                   (case choose_dest_dir (args_output a) folder_base deck_display
                           existing_dirs_start (st_claims st) error_log (st_disk st) of
                      Inl e \<Rightarrow> Inl e
                    | Inr (dest_dir, ledger, f1) \<Rightarrow>
                        (case for_each (handle_card a idx catalog error_log (path_name deck_path)
                                          dest_dir)
                                entries (False, st\<lparr>st_claims := ledger, st_disk := f1\<rparr>) of
                           Inl e \<Rightarrow> Inl e
                         | Inr (unique_back_used, st1) \<Rightarrow>
                             if unique_back_used
                             then (case rename_with_suffix dest_dir '' - Unique front and backs''
                                          error_log (args_error_text a) (st_disk st1) of
                                     Inl e \<Rightarrow> Inl e
                                   | Inr (renamed, f2) \<Rightarrow> Inr (st1\<lparr>st_disk := f2\<rparr>))
                             else Inr st1))))"

text \<open>The snapshot \<^verbatim>\<open>existing_dirs_start\<close>: the names of the directories in the output
  root, if it exists.\<close>

definition snapshot :: "filesystem \<Rightarrow> path \<Rightarrow> error + string list" where
  "snapshot f root =
     (if \<not> path_exists f root then Inr []
      else if \<not> is_dir f root then Inl NotADirectoryError
      else Inr (map path_name
                  (filter (\<lambda>p. p \<noteq> [] \<and> path_parent p = root \<and> is_dir f p) (map fst f))))"

text \<open>\<^verbatim>\<open>main\<close>, from the call of \<^verbatim>\<open>index_library\<close> on; the result is the disk at the end
  of the run.\<close>

definition main :: "args \<Rightarrow> (path \<times> string) list \<Rightarrow> filesystem \<Rightarrow> error + filesystem" where
  "main a deck_files f =
     (let error_log = path_join (args_output a) ''ERRORS.txt'';
          exts = map lower (args_exts a);
          lib = index_library (args_images a) (path_exists f (args_images a)) (args_scan a) exts
      in case for_each (\<lambda>msg. log msg error_log) (snd (snd lib)) f of
           Inl e \<Rightarrow> Inl e
         | Inr f1 \<Rightarrow>
             if deck_files = [] then Inr f1
             else (case snapshot f1 (args_output a) of
                     Inl e \<Rightarrow> Inl e
                   | Inr existing_dirs_start \<Rightarrow>
                       (case for_each (handle_deck a (fst lib) (fst (snd lib)) error_log
                                         existing_dirs_start)
                               deck_files
                               \<lparr>st_claims = [], st_cache = Map.empty, st_disk = f1\<rparr> of
                          Inl e \<Rightarrow> Inl e
                        | Inr st \<Rightarrow> Inr (st_disk st))))"

section \<open>Sample runs\<close>

text \<open>
  The default extension list of the command line, and a run with default options: the
  library holds \<^verbatim>\<open>img/Ember's Call (Red).png\<close> and \<^verbatim>\<open>img/Ember's Call (Red) (Back).png\<close>,
  the only decklist is \<^verbatim>\<open>decks/deck.txt\<close> with the line \<^verbatim>\<open>2x Ember's Call (Red)\<close>, and the
  output root \<^verbatim>\<open>out\<close> does not exist yet. \<open>deck_copies folder\<close> is a deck folder with the
  four copies that a run makes for this decklist.
\<close>

definition default_exts :: "string list" where
  "default_exts = [''.png'', ''.jpg'', ''.jpeg'', ''.webp'', ''.tif'', ''.tiff'']"

definition ember_front :: path where
  "ember_front = [''img'', ''Ember's Call (Red).png'']"

definition ember_back :: path where
  "ember_back = [''img'', ''Ember's Call (Red) (Back).png'']"

definition ember_args :: args where
  "ember_args = \<lparr>args_images = [''img''], args_output = [''out''], args_exts = default_exts,
                  args_game = [], args_by_identity = False, args_name_template = [],
                  args_scan = (\<lambda>ext. if ext = ''.png'' then [ember_front, ember_back] else []),
                  args_backs_map = Map.empty,
                  args_format = (\<lambda>template game side deck file_stem. Inr template),
                  args_error_text = (\<lambda>e. [])\<rparr>"

definition ember_decks :: "(path \<times> string) list" where
  "ember_decks = [([''decks'', ''deck.txt''], ''2x Ember's Call (Red)'')]"

definition ember_disk :: filesystem where
  "ember_disk = [([''img''], Dir), (ember_front, File ''front''), (ember_back, File ''back''),
                 ([''decks''], Dir), ([''decks'', ''deck.txt''], File ''2x Ember's Call (Red)'')]"

definition deck_copies :: "path \<Rightarrow> filesystem" where
  "deck_copies folder =
     [(folder, Dir),
      (folder @ [''Ember's Call (red) - 1 of 2.png''], File ''front''),
      (folder @ [''Ember's Call (red) - 2 of 2.png''], File ''front''),
      (folder @ [''Ember's Call (Back) - 1 of 2.png''], File ''back''),
      (folder @ [''Ember's Call (Back) - 2 of 2.png''], File ''back'')]"

text \<open>
  A run with default options over two decklists, \<^verbatim>\<open>a.txt\<close> titled \<^verbatim>\<open>Storm\<close> and \<^verbatim>\<open>b.txt\<close>
  titled \<^verbatim>\<open>Storm?\<close>, with one card each and no back art in the library; the output root
  exists and is empty.
\<close>

definition storm_args :: args where
  "storm_args = ember_args\<lparr>args_scan :=
                   (\<lambda>ext. if ext = ''.png'' then [[''img'', ''Alpha.png''], [''img'', ''Beta.png'']]
                          else [])\<rparr>"

definition storm_decks :: "(path \<times> string) list" where
  "storm_decks = [([''decks'', ''a.txt''], ''Title: Storm'' @ [CHR 0x0A] @ ''1x Alpha''),
                  ([''decks'', ''b.txt''], ''Title: Storm?'' @ [CHR 0x0A] @ ''1x Beta'')]"

definition storm_disk :: filesystem where
  "storm_disk = [([''img''], Dir), ([''img'', ''Alpha.png''], File ''alpha''),
                 ([''img'', ''Beta.png''], File ''beta''), ([''out''], Dir)]"

section \<open>Properties of the card matcher\<close>

lemma map_of_nonempty_bucket:
  "list_all (\<lambda>kv. snd kv \<noteq> []) idx \<Longrightarrow> map_of idx k = Some bucket \<Longrightarrow> bucket \<noteq> []"
  by (induction idx) (auto split: if_splits)

lemma best_match_nonempty_buckets:
  assumes "list_all (\<lambda>kv. snd kv \<noteq> []) idx"
  shows "\<exists>pick cands exact. best_match name idx = Inr (pick, cands, exact)
           \<and> pick = (case cands of [] \<Rightarrow> None | c # _ \<Rightarrow> Some c)"
proof (cases "map_of idx (normalize_key name)")
  case None
  then show ?thesis
    by (auto simp add: best_match_def Let_def split: list.splits)
next
  case (Some bucket)
  with assms have "bucket \<noteq> []" by (rule map_of_nonempty_bucket)
  with Some show ?thesis
    by (auto simp add: best_match_def Let_def split: list.splits)
qed

lemma index_add_nonempty:
  "list_all (\<lambda>kv. snd kv \<noteq> []) idx \<Longrightarrow> list_all (\<lambda>kv. snd kv \<noteq> []) (index_add k p idx)"
  by (induction idx) auto

lemma scan_fold_nonempty:
  "list_all (\<lambda>kv. snd kv \<noteq> []) (fst st) \<Longrightarrow>
   list_all (\<lambda>kv. snd kv \<noteq> []) (fst (foldl scan_step st ps))"
  by (induction ps arbitrary: st) (simp_all add: scan_step_def Let_def index_add_nonempty)

lemma sort_key_nonempty: "xs \<noteq> [] \<Longrightarrow> sort_key f xs \<noteq> []"
  by (metis length_sort length_0_conv)

lemma sorted_buckets_nonempty:
  "list_all (\<lambda>kv. snd kv \<noteq> []) idx \<Longrightarrow>
   list_all (\<lambda>kv. snd kv \<noteq> []) (map (\<lambda>(k, paths). (k, sort_key f paths)) idx)"
  by (induction idx) (auto simp add: sort_key_nonempty)

lemma index_library_nonempty:
  assumes "index_library images_root root_exists scan exts = (idx, catalog, lg)"
  shows "list_all (\<lambda>kv. snd kv \<noteq> []) idx"
proof (cases root_exists)
  case False
  with assms show ?thesis by (auto simp add: index_library_def)
next
  case True
  have "list_all (\<lambda>kv. snd kv \<noteq> []) (fst (foldl scan_step ([], []) (concat (map scan exts))))"
    by (rule scan_fold_nonempty) simp
  then have "list_all (\<lambda>kv. snd kv \<noteq> [])
               (map (\<lambda>(k, paths). (k, sort_key (sort_rank exts) paths))
                  (fst (foldl scan_step ([], []) (concat (map scan exts)))))"
    by (rule sorted_buckets_nonempty)
  moreover from True assms have
    "idx = map (\<lambda>(k, paths). (k, sort_key (sort_rank exts) paths))
             (fst (foldl scan_step ([], []) (concat (map scan exts))))"
    by (simp add: index_library_def Let_def)
  ultimately show ?thesis by simp
qed

lemma card_index:
  "index_library [''img''] True card_scan [''.png'', ''.jpg'']
     = ([(''card'', [[''img'', ''Card.png''], [''img'', ''Card.jpg'']])],
        [[''img'', ''Card.png''], [''img'', ''Card.jpg'']], [])"
  by code_simp

text \<open>
  Claim C8. The index that \<open>best_match\<close> receives is the one \<open>index_library\<close> returns:
  \<^verbatim>\<open>index.setdefault(key, []).append(p)\<close> is the only statement that writes to it. For
  every such index and every requested name \<open>best_match\<close> returns, its pick is the first
  element of the returned candidate list when that list is not empty and absent when it
  is empty; so the pick is absent exactly when the candidate list is empty.
\<close>

theorem best_match_pick_is_first:
  assumes "index_library images_root root_exists scan exts = (idx, catalog, lg)"
  shows "\<exists>pick cands exact. best_match name idx = Inr (pick, cands, exact)
           \<and> pick = (case cands of [] \<Rightarrow> None | c # _ \<Rightarrow> Some c)
           \<and> (pick = None \<longleftrightarrow> cands = [])"
proof -
  from assms have "list_all (\<lambda>kv. snd kv \<noteq> []) idx" by (rule index_library_nonempty)
  then obtain pick cands exact where r: "best_match name idx = Inr (pick, cands, exact)"
    and p: "pick = (case cands of [] \<Rightarrow> None | c # _ \<Rightarrow> Some c)"
    using best_match_nonempty_buckets by blast
  from p have q: "pick = None \<longleftrightarrow> cands = []" by (cases cands) simp_all
  from r p q show ?thesis by - (intro exI conjI, assumption+)
qed

theorem best_match_pick_is_first_witness:
  "index_library [''img''] True card_scan [''.png'', ''.jpg'']
     = ([(''card'', [[''img'', ''Card.png''], [''img'', ''Card.jpg'']])],
        [[''img'', ''Card.png''], [''img'', ''Card.jpg'']], [])
   \<and> (\<exists>pick cands exact.
          best_match ''Card (red)'' [(''card'', [[''img'', ''Card.png''], [''img'', ''Card.jpg'']])]
            = Inr (pick, cands, exact)
          \<and> pick = (case cands of [] \<Rightarrow> None | c # _ \<Rightarrow> Some c)
          \<and> (pick = None \<longleftrightarrow> cands = []))"
  using card_index best_match_pick_is_first [OF card_index, of "''Card (red)''"]
  by simp

section \<open>The order of a bucket\<close>

lemma lookup_index_add:
  "lookup_bucket (index_add k' p idx) k = lookup_bucket idx k @ (if k' = k then [p] else [])"
  by (induction idx) (auto simp add: lookup_bucket_def)

lemma scan_fold_lookup:
  "lookup_bucket (fst (foldl scan_step st ps)) k
     = lookup_bucket (fst st) k @ filter (\<lambda>p. normalize_key (path_stem p) = k \<and> k \<noteq> []) ps"
proof (induction ps arbitrary: st)
  case Nil
  show ?case by simp
next
  case (Cons p ps)
  have "lookup_bucket (fst (scan_step st p)) k
          = lookup_bucket (fst st) k @ (if normalize_key (path_stem p) = k \<and> k \<noteq> [] then [p] else [])"
    by (auto simp add: scan_step_def Let_def lookup_index_add)
  then show ?case using Cons [of "scan_step st p"] by simp
qed

lemma ext_order_bound: "ext_order exts e = Some i \<Longrightarrow> i < length exts"
proof -
  assume "ext_order exts e = Some i"
  then have "(e, i) \<in> set (rev (zip (map lower exts) [0..<length exts]))"
    unfolding ext_order_def by (rule map_of_SomeD)
  then have "i \<in> set [0..<length exts]"
    by (auto dest: set_zip_rightD)
  then show ?thesis by simp
qed

text \<open>
  Claim C6, amended. In the index that \<open>index_library\<close> builds, the bucket of a key is
  the stable sort of the scanned files whose stem normalizes to that key, taken in scan
  order: it is not empty, it is ascending in the pair of the rank of the entry's
  lower-cased extension (its position in the lower-cased extension list, the last one if
  it is listed twice, 999 if it is not listed) and the lower-cased path string, and
  entries of equal rank pair keep their scan order; with at most 999 extensions an entry
  with an unlisted extension sorts behind every entry with a listed one. For a name whose
  normalized form is a key, \<open>best_match\<close> returns the first entry of the bucket, the whole
  bucket and \<open>exact = True\<close>.
\<close>

theorem exact_match_sorted_bucket:
  assumes "index_library images_root True scan exts = (idx, catalog, lg)"
      and "map_of idx (normalize_key name) = Some bucket"
  shows "best_match name idx = Inr (Some (hd bucket), bucket, True)
         \<and> bucket \<noteq> []
         \<and> bucket = sort_key (sort_rank exts)
                       (filter (\<lambda>p. normalize_key (path_stem p) = normalize_key name)
                          (concat (map scan exts)))
         \<and> sorted (map (sort_rank exts) bucket)
         \<and> (\<forall>r. filter (\<lambda>p. sort_rank exts p = r) bucket
                  = filter (\<lambda>p. sort_rank exts p = r \<and> normalize_key (path_stem p) = normalize_key name)
                      (concat (map scan exts)))
         \<and> (length exts \<le> 999 \<longrightarrow>
              (\<forall>p q. ext_order exts (lower (path_suffix p)) \<noteq> None
                    \<and> ext_order exts (lower (path_suffix q)) = None
                    \<longrightarrow> sort_rank exts p < sort_rank exts q))"
proof -
  let ?key = "normalize_key name"
  let ?all = "concat (map scan exts)"
  define idx0 where "idx0 = fst (foldl scan_step ([], []) ?all)"
  have idx: "idx = map (\<lambda>(k, paths). (k, sort_key (sort_rank exts) paths)) idx0"
    using assms(1) by (simp add: index_library_def Let_def idx0_def)
  have ne0: "list_all (\<lambda>kv. snd kv \<noteq> []) idx0"
    unfolding idx0_def by (rule scan_fold_nonempty) simp
  from assms(2) obtain b0 where b0: "map_of idx0 ?key = Some b0"
    and bucket: "bucket = sort_key (sort_rank exts) b0"
    unfolding idx by (auto simp add: map_of_map)
  from ne0 b0 have b0ne: "b0 \<noteq> []" by (rule map_of_nonempty_bucket)
  have "lookup_bucket [] ?key = []" by (simp add: lookup_bucket_def)
  then have "lookup_bucket idx0 ?key
          = filter (\<lambda>p. normalize_key (path_stem p) = ?key \<and> ?key \<noteq> []) ?all"
    unfolding idx0_def using scan_fold_lookup [of "([], [])" ?all ?key] by simp
  with b0 have f0: "b0 = filter (\<lambda>p. normalize_key (path_stem p) = ?key \<and> ?key \<noteq> []) ?all"
    by (simp add: lookup_bucket_def)
  with b0ne have "?key \<noteq> []" by auto
  with f0 have scanned: "b0 = filter (\<lambda>p. normalize_key (path_stem p) = ?key) ?all" by simp
  have ne: "bucket \<noteq> []"
    unfolding bucket using b0ne by (rule sort_key_nonempty)
  have srt: "sorted (map (sort_rank exts) bucket)"
    unfolding bucket by (rule sorted_sort_key)
  have stable: "\<forall>r. filter (\<lambda>p. sort_rank exts p = r) bucket
                  = filter (\<lambda>p. sort_rank exts p = r \<and> normalize_key (path_stem p) = ?key) ?all"
    unfolding bucket scanned by (simp add: sort_key_stable conj_commute)
  from ne obtain p ps where "bucket = p # ps" by (cases bucket) auto
  with assms(2) have bm: "best_match name idx = Inr (Some (hd bucket), bucket, True)"
    by (simp add: best_match_def Let_def)
  have last: "length exts \<le> 999 \<longrightarrow>
              (\<forall>p q. ext_order exts (lower (path_suffix p)) \<noteq> None
                    \<and> ext_order exts (lower (path_suffix q)) = None
                    \<longrightarrow> sort_rank exts p < sort_rank exts q)"
  proof (intro impI allI, elim conjE)
    fix p q
    assume len: "length exts \<le> 999"
      and kp: "ext_order exts (lower (path_suffix p)) \<noteq> None"
      and kq: "ext_order exts (lower (path_suffix q)) = None"
    from kp obtain i where i: "ext_order exts (lower (path_suffix p)) = Some i" by auto
    then have "i < 999" using ext_order_bound [OF i] len by simp
    with i kq show "sort_rank exts p < sort_rank exts q"
      by (simp add: sort_rank_def)
  qed
  from bucket scanned have eq: "bucket = sort_key (sort_rank exts)
                       (filter (\<lambda>p. normalize_key (path_stem p) = ?key) ?all)"
    by simp
  from bm ne eq srt stable last show ?thesis by blast
qed

lemma card_lookup:
  "map_of [(''card'', [[''img'', ''Card.png''], [''img'', ''Card.jpg'']])] (normalize_key ''Card'')
     = Some [[''img'', ''Card.png''], [''img'', ''Card.jpg'']]"
  by code_simp

theorem exact_match_sorted_bucket_witness:
  "index_library [''img''] True card_scan [''.png'', ''.jpg'']
     = ([(''card'', [[''img'', ''Card.png''], [''img'', ''Card.jpg'']])],
        [[''img'', ''Card.png''], [''img'', ''Card.jpg'']], [])
   \<and> best_match ''Card'' [(''card'', [[''img'', ''Card.png''], [''img'', ''Card.jpg'']])]
     = Inr (Some [''img'', ''Card.png''], [[''img'', ''Card.png''], [''img'', ''Card.jpg'']], True)"
proof -
  from exact_match_sorted_bucket [OF card_index card_lookup]
  have "best_match ''Card'' [(''card'', [[''img'', ''Card.png''], [''img'', ''Card.jpg'']])]
          = Inr (Some (hd [[''img'', ''Card.png''], [''img'', ''Card.jpg'']]),
                 [[''img'', ''Card.png''], [''img'', ''Card.jpg'']], True)"
    by (rule conjunct1)
  then show ?thesis using card_index by simp
qed

text \<open>
  Claim C6 as stated, with the second criterion the path string itself, fails: for the
  files \<^verbatim>\<open>aB.png\<close> and \<^verbatim>\<open>a_b.png\<close> the bucket is \<^verbatim>\<open>[a_b.png, aB.png]\<close>, which is
  not ascending in the path string (\<^verbatim>\<open>B\<close> is smaller than \<^verbatim>\<open>_\<close>).
\<close>

theorem bucket_order_counterexample:
  "map_of (fst (index_library [''img''] True underscore_scan [''.png''])) ''ab''
     = Some [[''img'', ''a_b.png''], [''img'', ''aB.png'']]
   \<and> \<not> sorted (map (spec_rank [''.png'']) [[''img'', ''a_b.png''], [''img'', ''aB.png'']])"
  by code_simp

section \<open>Files whose stem normalizes to the empty key\<close>

lemma contains_subset: "contains sub s \<Longrightarrow> set sub \<subseteq> set s"
proof (induction s)
  case Nil
  then show ?case by simp
next
  case (Cons c cs)
  show ?case
  proof (cases "startswith (c # cs) sub")
    case True
    then have "sub = take (length sub) (c # cs)" by (simp add: startswith_def)
    then have "set sub \<subseteq> set (c # cs)" by (metis set_take_subset)
    then show ?thesis .
  next
    case False
    with Cons show ?thesis by auto
  qed
qed

lemma runs_nonempty_witness: "runs P s \<noteq> [] \<Longrightarrow> \<exists>c \<in> set s. P c"
proof (rule ccontr)
  assume ne: "runs P s \<noteq> []" and "\<not> (\<exists>c \<in> set s. P c)"
  then have dw: "dropWhile (\<lambda>c. \<not> P c) s = []" by simp
  have "runs P s = []" by (subst runs.simps) (simp only: dw list.case)
  with ne show False by simp
qed

lemma paren_groups_subset: "grp \<in> set (paren_groups s) \<Longrightarrow> set grp \<subseteq> set s"
proof (induction s arbitrary: grp rule: paren_groups.induct)
  case 1
  then show ?case by (simp add: paren_groups.simps)
next
  case (2 c cs)
  let ?P = "\<lambda>d. d \<noteq> CHR '')''"
  show ?case
  proof (cases "c = CHR ''('' \<and> dropWhile ?P cs \<noteq> [] \<and> 2 \<le> length (takeWhile ?P cs)")
    case True
    with 2(3) have "grp = takeWhile ?P cs \<or> grp \<in> set (paren_groups (tl (dropWhile ?P cs)))"
      by (subst (asm) paren_groups.simps) auto
    then show ?thesis
    proof
      assume "grp = takeWhile ?P cs"
      then show ?thesis using set_takeWhileD by fastforce
    next
      assume "grp \<in> set (paren_groups (tl (dropWhile ?P cs)))"
      with True 2(1) have "set grp \<subseteq> set (tl (dropWhile ?P cs))" by blast
      also have "\<dots> \<subseteq> set (dropWhile ?P cs)" by (metis list.set_sel(2) subsetI tl_Nil)
      also have "\<dots> \<subseteq> set cs" by (rule set_dropWhileD [THEN subsetI]) 
      finally show ?thesis by auto
    qed
  next
    case False
    with 2(3) have "grp \<in> set (paren_groups cs)"
      by (subst (asm) paren_groups.simps) auto
    with False 2(2) have "set grp \<subseteq> set cs" by blast
    then show ?thesis by auto
  qed
qed

lemma normalize_key_nonempty: "c \<in> set s \<Longrightarrow> is_lower_alnum (lower_char c) \<Longrightarrow> normalize_key s \<noteq> []"
  by (auto simp add: normalize_key_def lower_def filter_empty_conv)

lemma backs_paren_key:
  assumes "p \<in> set (backs_paren base catalog)"
  shows "normalize_key (path_stem p) \<noteq> []"
proof -
  from assms have ne: "tokenize base \<noteq> []"
    by (auto simp add: backs_paren_def split: if_splits)
  from assms ne obtain grp where grp: "grp \<in> set (paren_groups (path_stem p))"
    and sub: "set (tokenize base) \<subseteq> set (tokenize grp)"
    by (auto simp add: backs_paren_def list_ex_iff)
  from ne sub have "tokenize grp \<noteq> []" by (cases "tokenize base") auto
  then obtain c where "c \<in> set (lower grp)" and c: "is_lower_alnum c"
    unfolding tokenize_def by (blast dest: runs_nonempty_witness)
  then obtain d where d: "d \<in> set grp" and "c = lower_char d"
    by (auto simp add: lower_def)
  with c have "is_lower_alnum (lower_char d)" by simp
  moreover from d grp have "d \<in> set (path_stem p)" using paren_groups_subset by blast
  ultimately show ?thesis by (rule normalize_key_nonempty [rotated])
qed

lemma backs_keyword_key:
  assumes "p \<in> set (backs_keyword base catalog)"
  shows "normalize_key (path_stem p) \<noteq> []"
proof -
  from assms have "contains ''back'' (lower (path_stem p))"
    by (auto simp add: backs_keyword_def)
  then have "CHR ''b'' \<in> set (lower (path_stem p))"
    using contains_subset by fastforce
  then obtain d where d: "d \<in> set (path_stem p)" and b: "lower_char d = CHR ''b''"
    by (auto simp add: lower_def)
  have "is_lower_alnum (CHR ''b'')" by code_simp
  with b have "is_lower_alnum (lower_char d)" by simp
  with d show ?thesis by (rule normalize_key_nonempty)
qed


lemma scan_fold_catalog: "snd (foldl scan_step st ps) = snd st @ ps"
  by (induction ps arbitrary: st) (simp_all add: scan_step_def Let_def)

lemma keyedD:
  "keyed idx \<Longrightarrow> (k, b) \<in> set idx \<Longrightarrow> p \<in> set b \<Longrightarrow> normalize_key (path_stem p) = k \<and> k \<noteq> []"
  by (fastforce simp add: keyed_def list_all_iff)

lemma index_add_keyed:
  "keyed idx \<Longrightarrow> normalize_key (path_stem p) = k \<Longrightarrow> k \<noteq> [] \<Longrightarrow> keyed (index_add k p idx)"
  by (induction idx) (auto simp add: keyed_def)

lemma scan_fold_keyed: "keyed (fst st) \<Longrightarrow> keyed (fst (foldl scan_step st ps))"
  by (induction ps arbitrary: st) (simp_all add: scan_step_def Let_def index_add_keyed)

lemma sort_keyed: "keyed idx \<Longrightarrow> keyed (map (\<lambda>(k, paths). (k, sort_key f paths)) idx)"
  by (induction idx) (auto simp add: keyed_def list_all_iff)

lemma index_library_keyed:
  assumes "index_library images_root b scan exts = (idx, catalog, lg)"
  shows "keyed idx"
proof (cases b)
  case False
  with assms show ?thesis by (auto simp add: index_library_def keyed_def)
next
  case True
  have "keyed (fst (foldl scan_step ([], []) (concat (map scan exts))))"
    by (rule scan_fold_keyed) (simp add: keyed_def)
  then have "keyed (map (\<lambda>(k, paths). (k, sort_key (sort_rank exts) paths))
             (fst (foldl scan_step ([], []) (concat (map scan exts)))))"
    by (rule sort_keyed)
  moreover from True assms have
    "idx = map (\<lambda>(k, paths). (k, sort_key (sort_rank exts) paths))
             (fst (foldl scan_step ([], []) (concat (map scan exts))))"
    by (simp add: index_library_def Let_def)
  ultimately show ?thesis by simp
qed

lemma related_entries_from_index:
  "p \<in> set (related_entries b idx) \<Longrightarrow> \<exists>k bucket. (k, bucket) \<in> set idx \<and> p \<in> set bucket"
  by (auto simp add: related_entries_def)

lemma pitch_filter_subset: "set (pitch_filter pitch cands) \<subseteq> set cands"
  by (cases pitch) (auto simp add: pitch_filter_def)

lemma best_match_from_index:
  assumes "best_match name idx = Inr (pick, cands, exact)"
      and "p \<in> set cands \<or> pick = Some p"
  shows "\<exists>k bucket. (k, bucket) \<in> set idx \<and> p \<in> set bucket"
proof (cases "map_of idx (normalize_key name)")
  case (Some bucket)
  with assms(1) have "cands = bucket" and "bucket \<noteq> []" and "pick = Some (hd bucket)"
    by (auto simp add: best_match_def Let_def split: list.splits)
  with assms(2) have "p \<in> set bucket" by auto
  moreover from Some have "(normalize_key name, bucket) \<in> set idx" by (rule map_of_SomeD)
  ultimately show ?thesis by blast
next
  case None
  let ?base = "if extract_pitch name \<noteq> None then strip_pitch_suffix name else name"
  let ?c = "pitch_filter (extract_pitch name) (related_entries (normalize_key ?base) idx)"
  let ?rb = "normalize_key (strip_back_suffix (strip_pitch_suffix name))"
  let ?l = "if ?rb \<noteq> [] then related_entries ?rb idx else []"
  show ?thesis
  proof (cases ?c)
    case (Cons c cs)
    with None assms(1) have "cands = ?c" and "pick = Some c"
      by (simp_all add: best_match_def Let_def)
    with assms(2) Cons have "p \<in> set ?c" by auto
    then have "p \<in> set (related_entries (normalize_key ?base) idx)"
      using pitch_filter_subset by blast
    then show ?thesis by (rule related_entries_from_index)
  next
    case Nil
    show ?thesis
    proof (cases ?l)
      case (Cons l ls)
      with None Nil assms(1) have "cands = ?l" and "pick = Some l"
        by (simp_all add: best_match_def Let_def)
      with assms(2) Cons have "p \<in> set ?l" by auto
      then have "p \<in> set (related_entries ?rb idx)" by (auto split: if_splits)
      then show ?thesis by (rule related_entries_from_index)
    next
      case Nil2: Nil
      with None Nil assms(1) have "cands = []" and "pick = None"
        by (simp_all add: best_match_def Let_def)
      with assms(2) show ?thesis by simp
    qed
  qed
qed

text \<open>
  Claim C10, amended. Every file found by the catalog scan is appended to the flat
  catalog; every entry of the index stands under the normalized form of its stem, which
  is not empty, so a file whose stem normalizes to the empty key is in no bucket and
  \<open>best_match\<close> (exact, prefix and loose step) never returns it as pick or candidate; the
  two back-art heuristics over the flat catalog never return such a file either.
\<close>

theorem empty_key_files_unreachable:
  assumes "index_library images_root root_exists scan exts = (idx, catalog, lg)"
  shows "catalog = (if root_exists then concat (map scan exts) else [])
         \<and> (\<forall>k bucket p. (k, bucket) \<in> set idx \<and> p \<in> set bucket
               \<longrightarrow> normalize_key (path_stem p) = k \<and> k \<noteq> [])
         \<and> (\<forall>name pick cands exact p.
               best_match name idx = Inr (pick, cands, exact) \<and> (p \<in> set cands \<or> pick = Some p)
               \<longrightarrow> normalize_key (path_stem p) \<noteq> [])
         \<and> (\<forall>base p. p \<in> set (backs_paren base catalog) \<or> p \<in> set (backs_keyword base catalog)
               \<longrightarrow> normalize_key (path_stem p) \<noteq> [])"
proof -
  have c: "catalog = (if root_exists then concat (map scan exts) else [])"
    using assms by (auto simp add: index_library_def Let_def scan_fold_catalog split: if_splits)
  have k: "keyed idx" using assms by (rule index_library_keyed)
  then have k1: "\<forall>k bucket p. (k, bucket) \<in> set idx \<and> p \<in> set bucket
               \<longrightarrow> normalize_key (path_stem p) = k \<and> k \<noteq> []"
    using keyedD by blast
  have k2: "\<forall>name pick cands exact p.
               best_match name idx = Inr (pick, cands, exact) \<and> (p \<in> set cands \<or> pick = Some p)
               \<longrightarrow> normalize_key (path_stem p) \<noteq> []"
  proof (intro allI impI, elim conjE)
    fix name pick cands exact p
    assume "best_match name idx = Inr (pick, cands, exact)" and "p \<in> set cands \<or> pick = Some p"
    then obtain k bucket where "(k, bucket) \<in> set idx" and "p \<in> set bucket"
      using best_match_from_index by blast
    with k1 show "normalize_key (path_stem p) \<noteq> []" by blast
  qed
  have k3: "\<forall>base p. p \<in> set (backs_paren base catalog) \<or> p \<in> set (backs_keyword base catalog)
               \<longrightarrow> normalize_key (path_stem p) \<noteq> []"
    using backs_paren_key backs_keyword_key by blast
  from c k1 k2 k3 show ?thesis by blast
qed

lemma dash_index:
  "index_library [''img''] True dash_scan [''.png'']
     = ([(''card'', [[''img'', ''Card.png'']])], [[''img'', ''---.png''], [''img'', ''Card.png'']], [])"
  by code_simp

theorem empty_key_files_unreachable_witness:
  "index_library [''img''] True dash_scan [''.png'']
     = ([(''card'', [[''img'', ''Card.png'']])], [[''img'', ''---.png''], [''img'', ''Card.png'']], [])
   \<and> normalize_key (path_stem [''img'', ''---.png'']) = []
   \<and> normalize_key (path_stem [''img'', ''Card.png'']) = ''card''"
proof -
  have "([''img'', ''Card.png'']) \<in> set [[''img'', ''Card.png'']]" by simp
  with empty_key_files_unreachable [OF dash_index]
  have "normalize_key (path_stem [''img'', ''Card.png'']) = ''card''" by auto
  moreover have "normalize_key (path_stem [''img'', ''---.png'']) = []" by code_simp
  ultimately show ?thesis using dash_index by simp
qed

text \<open>
  Claim C10 as stated ends with "the flat-catalog back-art heuristics still can [return
  such a file]". They cannot: the parenthetical strategy needs a group with a token, the
  keyword strategy needs \<^verbatim>\<open>back\<close> in the stem, and either puts an alphanumeric character
  into the stem.
\<close>

theorem heuristics_empty_key_counterexample:
  "\<not> (\<exists>base catalog p. (p \<in> set (backs_paren base catalog) \<or> p \<in> set (backs_keyword base catalog))
        \<and> normalize_key (path_stem p) = [])"
  using backs_paren_key backs_keyword_key by blast

section \<open>Properties of the back-art resolver\<close>

text \<open>Normalized keys ignore white space and split over concatenation; a name with a
  trailing tag has the key of the name without the tag, followed by the tag's word.\<close>

lemma normalize_key_append: "normalize_key (a @ b) = normalize_key a @ normalize_key b"
  by (simp add: normalize_key_def lower_def)

lemma space_not_alnum: "is_space c \<Longrightarrow> \<not> is_lower_alnum (lower_char c)"
  by (auto simp add: is_space_def lower_char_def is_lower_alnum_def is_upper_def is_latin_upper_def
        is_digit_def less_eq_char_def)

lemma normalize_key_filter:
  "normalize_key s = map lower_char (filter (\<lambda>c. is_lower_alnum (lower_char c)) s)"
  by (simp add: normalize_key_def lower_def filter_map comp_def)

lemma normalize_key_lstrip: "normalize_key (lstrip s) = normalize_key s"
  unfolding normalize_key_filter lstrip_def
  by (simp add: filter_dropWhile_disjoint space_not_alnum)

lemma normalize_key_rstrip: "normalize_key (rstrip s) = normalize_key s"
  unfolding normalize_key_filter rstrip_def
  by (simp add: filter_drop_end_disjoint space_not_alnum)

lemma normalize_key_strip: "normalize_key (strip s) = normalize_key s"
  by (simp add: strip_def normalize_key_lstrip normalize_key_rstrip)

lemma lower_drop: "lower (drop k s) = drop k (lower s)"
  by (simp add: lower_def drop_map)

lemma trailing_tag_key:
  assumes "trailing_tag ws name = Some w"
  shows "w \<in> set ws
         \<and> normalize_key name = normalize_key (strip_tag ws name) @ filter is_lower_alnum (paren w)"
proof -
  let ?r = "rstrip name"
  let ?k = "length ?r - length (paren w)"
  from assms have w: "w \<in> set ws" and e: "endswith (lower ?r) (paren w)"
    by (auto simp add: trailing_tag_def find_Some_iff in_set_conv_nth)
  from e have d: "lower (drop ?k ?r) = paren w"
    by (simp add: endswith_def lower_drop) (simp add: lower_def)
  have "normalize_key ?r = normalize_key (take ?k ?r @ drop ?k ?r)" by simp
  also have "\<dots> = normalize_key (take ?k ?r) @ filter is_lower_alnum (lower (drop ?k ?r))"
    by (simp only: normalize_key_append) (simp add: normalize_key_def)
  also have "\<dots> = normalize_key (strip (take ?k ?r)) @ filter is_lower_alnum (paren w)"
    by (simp only: d normalize_key_strip)
  also have "strip (take ?k ?r) = strip_tag ws name"
    using assms by (simp add: strip_tag_def)
  finally show ?thesis using w by (simp add: normalize_key_rstrip)
qed

lemma strip_tag_none: "trailing_tag ws name = None \<Longrightarrow> strip_tag ws name = strip name"
  by (simp add: strip_tag_def)

lemma written_back_key:
  assumes nb: "trailing_tag [''back''] (strip_pitch_suffix front_card) = None"
      and na: "trailing_tag pitch_words front_card \<noteq> Some ''yel''"
              "trailing_tag pitch_words front_card \<noteq> Some ''blu''"
  shows "normalize_key (front_card @ '' (Back)'')
           \<in> set (map normalize_key (explicit_names front_card src))"
proof -
  have bk: "normalize_key '' (Back)'' = ''back''" by code_simp
  have base: "normalize_key (back_base front_card) = normalize_key (strip_pitch_suffix front_card)"
    using nb by (simp add: back_base_def strip_back_suffix_def strip_tag_none normalize_key_strip)
  show ?thesis
  proof (cases "trailing_tag pitch_words front_card")
    case None
    then have "normalize_key (strip_pitch_suffix front_card) = normalize_key front_card"
      by (simp add: strip_pitch_suffix_def strip_tag_none normalize_key_strip)
    with base have "normalize_key (back_base front_card @ '' (Back)'')
                      = normalize_key (front_card @ '' (Back)'')"
      by (simp only: normalize_key_append)
    then show ?thesis by (simp add: explicit_names_def)
  next
    case (Some w)
    from trailing_tag_key [OF Some] have w: "w \<in> set pitch_words"
      and k: "normalize_key front_card
                = normalize_key (strip_pitch_suffix front_card) @ filter is_lower_alnum (paren w)"
      by (simp_all add: strip_pitch_suffix_def)
    from w na Some have c: "w = ''red'' \<or> w = ''yellow'' \<or> w = ''blue''"
      by (auto simp add: pitch_words_def)
    then have p: "extract_pitch front_card = Some w"
      using Some by (auto simp add: extract_pitch_def)
    from c have f: "filter is_lower_alnum (paren w) @ ''back''
                       = normalize_key ('' ('' @ w @ '') (Back)'')"
      by (elim disjE; hypsubst) code_simp+
    have "normalize_key (back_base front_card @ '' ('' @ w @ '') (Back)'')
            = normalize_key (back_base front_card) @ normalize_key ('' ('' @ w @ '') (Back)'')"
      by (rule normalize_key_append)
    also have "\<dots> = normalize_key (strip_pitch_suffix front_card)
                       @ filter is_lower_alnum (paren w) @ ''back''"
      by (simp only: base f)
    also have "\<dots> = normalize_key (front_card @ '' (Back)'')"
      by (simp only: normalize_key_append k bk append_assoc)
    finally show ?thesis using p by (simp add: explicit_names_def)
  qed
qed

lemma explicit_bucket_subset:
  assumes "k \<in> set (map normalize_key (explicit_names front_card src))"
      and "map_of idx k = Some bucket"
  shows "set bucket \<subseteq> set (backs_explicit front_card src idx)"
  using assms by (auto simp add: backs_explicit_def lookup_bucket_def)


lemma dedup_by_subset: "set (dedup_by f seen ps) \<subseteq> set ps"
  by (induction ps arbitrary: seen) auto

lemma dedup_by_nonempty: "ps \<noteq> [] \<Longrightarrow> dedup_by f [] ps \<noteq> []"
  by (cases ps) simp_all

text \<open>
  Claim C5, amended. On a call that is not answered from the cache, the result of
  \<open>find_back_images\<close> is the deduplicated result of the first of the four strategies, in
  the order explicit names, override map, parenthetical containment, keyword containment,
  that produced anything; when the explicit strategy produced something the result is its
  deduplicated list whatever the override map holds. When the index has a non-empty
  bucket for the explicit name \<^verbatim>\<open>{base} (Back)\<close>, \<open>base\<close> being the requested name without
  its pitch and back tags, the result starts with that bucket's first file and holds
  explicit hits only. When the requested name as written carries no back tag and no
  abbreviated pitch tag (\<^verbatim>\<open>yel\<close>, \<^verbatim>\<open>blu\<close>) and the index has a non-empty bucket for
  \<^verbatim>\<open>{name} (Back)\<close>, that bucket is among the explicit hits and the result is a non-empty
  list of explicit hits.
\<close>

theorem back_cascade_order:
  assumes "cache (normalize_key front_card) = None"
  shows "fst (find_back_images cache front_card src idx catalog backs_map)
           = dedup_by (\<lambda>p. (path_stem p, lower (path_suffix p))) []
               (first_nonempty [backs_explicit front_card src idx,
                                backs_override [front_card, back_base front_card] backs_map idx,
                                backs_paren (back_base front_card) catalog,
                                backs_keyword (back_base front_card) catalog])
         \<and> (backs_explicit front_card src idx \<noteq> [] \<longrightarrow>
              fst (find_back_images cache front_card src idx catalog backs_map)
                = dedup_by (\<lambda>p. (path_stem p, lower (path_suffix p))) []
                    (backs_explicit front_card src idx))
         \<and> (\<forall>p ps. map_of idx (normalize_key (back_base front_card @ '' (Back)'')) = Some (p # ps)
              \<longrightarrow> (\<exists>rest. fst (find_back_images cache front_card src idx catalog backs_map) = p # rest
                      \<and> set (p # rest) \<subseteq> set (backs_explicit front_card src idx)))
         \<and> (trailing_tag [''back''] (strip_pitch_suffix front_card) = None
              \<and> trailing_tag pitch_words front_card \<noteq> Some ''yel''
              \<and> trailing_tag pitch_words front_card \<noteq> Some ''blu''
              \<longrightarrow> (\<forall>p ps. map_of idx (normalize_key (front_card @ '' (Back)'')) = Some (p # ps)
                     \<longrightarrow> set (p # ps) \<subseteq> set (backs_explicit front_card src idx)
                         \<and> fst (find_back_images cache front_card src idx catalog backs_map) \<noteq> []
                         \<and> set (fst (find_back_images cache front_card src idx catalog backs_map))
                              \<subseteq> set (backs_explicit front_card src idx)))"
proof -
  let ?d = "dedup_by (\<lambda>p. (path_stem p, lower (path_suffix p))) []"
  let ?e = "backs_explicit front_card src idx"
  have r: "fst (find_back_images cache front_card src idx catalog backs_map)
             = resolve_backs front_card src idx catalog backs_map"
    using assms by (simp add: find_back_images_def Let_def)
  have a: "resolve_backs front_card src idx catalog backs_map
           = ?d (first_nonempty [?e,
                                backs_override [front_card, back_base front_card] backs_map idx,
                                backs_paren (back_base front_card) catalog,
                                backs_keyword (back_base front_card) catalog])"
    by (simp add: resolve_backs_def Let_def)
  have b: "?e \<noteq> [] \<longrightarrow> resolve_backs front_card src idx catalog backs_map = ?d ?e"
    by (simp add: resolve_backs_def Let_def)
  have c: "\<forall>p ps. map_of idx (normalize_key (back_base front_card @ '' (Back)'')) = Some (p # ps)
              \<longrightarrow> (\<exists>rest. resolve_backs front_card src idx catalog backs_map = p # rest
                      \<and> set (p # rest) \<subseteq> set ?e)"
  proof (intro allI impI)
    fix p ps
    assume m: "map_of idx (normalize_key (back_base front_card @ '' (Back)'')) = Some (p # ps)"
    then obtain more where e: "?e = p # more"
      by (simp add: backs_explicit_def explicit_names_def lookup_bucket_def)
    then have "resolve_backs front_card src idx catalog backs_map = ?d (p # more)"
      using b by simp
    moreover have "set (?d (p # more)) \<subseteq> set (p # more)"
      by (rule dedup_by_subset)
    ultimately show "\<exists>rest. resolve_backs front_card src idx catalog backs_map = p # rest
                      \<and> set (p # rest) \<subseteq> set ?e"
      using e by auto
  qed
  have d: "trailing_tag [''back''] (strip_pitch_suffix front_card) = None
              \<and> trailing_tag pitch_words front_card \<noteq> Some ''yel''
              \<and> trailing_tag pitch_words front_card \<noteq> Some ''blu''
              \<longrightarrow> (\<forall>p ps. map_of idx (normalize_key (front_card @ '' (Back)'')) = Some (p # ps)
                     \<longrightarrow> set (p # ps) \<subseteq> set ?e
                         \<and> resolve_backs front_card src idx catalog backs_map \<noteq> []
                         \<and> set (resolve_backs front_card src idx catalog backs_map) \<subseteq> set ?e)"
  proof (intro allI impI, elim conjE)
    fix p ps
    assume nb: "trailing_tag [''back''] (strip_pitch_suffix front_card) = None"
      and na: "trailing_tag pitch_words front_card \<noteq> Some ''yel''"
              "trailing_tag pitch_words front_card \<noteq> Some ''blu''"
      and m: "map_of idx (normalize_key (front_card @ '' (Back)'')) = Some (p # ps)"
    from nb na have "normalize_key (front_card @ '' (Back)'')
                       \<in> set (map normalize_key (explicit_names front_card src))"
      by (rule written_back_key)
    then have sub: "set (p # ps) \<subseteq> set ?e" using m by (rule explicit_bucket_subset)
    then have ne: "?e \<noteq> []" by auto
    with b have eq: "resolve_backs front_card src idx catalog backs_map = ?d ?e" by simp
    from ne have "?d ?e \<noteq> []" by (rule dedup_by_nonempty)
    moreover have "set (?d ?e) \<subseteq> set ?e" by (rule dedup_by_subset)
    ultimately show "set (p # ps) \<subseteq> set ?e
                     \<and> resolve_backs front_card src idx catalog backs_map \<noteq> []
                     \<and> set (resolve_backs front_card src idx catalog backs_map) \<subseteq> set ?e"
      using sub eq by simp
  qed
  from a b c d show ?thesis unfolding r by (intro conjI)
qed

text \<open>The instance: the library holds \<^verbatim>\<open>X.png\<close>, \<^verbatim>\<open>X (Back).png\<close> and \<^verbatim>\<open>Other.png\<close>, the
  override map sends \<^verbatim>\<open>X\<close> to \<^verbatim>\<open>Other\<close>, and the explicit back is the result.\<close>

lemma xback_miss: "(Map.empty :: back_cache) (normalize_key ''X'') = None"
  by simp

lemma xback_lookup:
  "map_of (sample_index xback_files) (normalize_key (back_base ''X'' @ '' (Back)''))
     = Some ([''img'', ''X (Back).png''] # [])"
  by code_simp

lemma xback_override:
  "backs_override [''X'', back_base ''X''] (map_of [(''X'', ''Other'')]) (sample_index xback_files)
     = [[''img'', ''Other.png'']]"
  by code_simp

lemma xback_pick:
  "best_match ''X'' (sample_index xback_files)
     = Inr (Some [''img'', ''X.png''], [[''img'', ''X.png'']], True)"
  by code_simp

theorem back_cascade_order_witness:
  "(Map.empty :: back_cache) (normalize_key ''X'') = None
   \<and> best_match ''X'' (sample_index xback_files)
       = Inr (Some [''img'', ''X.png''], [[''img'', ''X.png'']], True)
   \<and> backs_override [''X'', back_base ''X''] (map_of [(''X'', ''Other'')]) (sample_index xback_files)
       = [[''img'', ''Other.png'']]
   \<and> (\<exists>rest. fst (find_back_images Map.empty ''X'' [''img'', ''X.png''] (sample_index xback_files)
                    (sample_catalog xback_files) (map_of [(''X'', ''Other'')]))
               = [''img'', ''X (Back).png''] # rest
             \<and> set ([''img'', ''X (Back).png''] # rest)
                 \<subseteq> set (backs_explicit ''X'' [''img'', ''X.png''] (sample_index xback_files)))"
proof -
  from back_cascade_order [where cache = Map.empty and front_card = "''X''"
      and src = "[''img'', ''X.png'']" and idx = "sample_index xback_files"
      and catalog = "sample_catalog xback_files"
      and backs_map = "map_of [(''X'', ''Other'')]", OF xback_miss]
    xback_lookup
  have "\<exists>rest. fst (find_back_images Map.empty ''X'' [''img'', ''X.png''] (sample_index xback_files)
                    (sample_catalog xback_files) (map_of [(''X'', ''Other'')]))
               = [''img'', ''X (Back).png''] # rest
             \<and> set ([''img'', ''X (Back).png''] # rest)
                 \<subseteq> set (backs_explicit ''X'' [''img'', ''X.png''] (sample_index xback_files))"
    by blast
  with xback_miss xback_pick xback_override show ?thesis by (intro conjI)
qed

text \<open>
  Claim C5 as stated fails in two ways. A call answered from the cache evaluates no
  strategy: after the request \<^verbatim>\<open>Xred\<close>, resolved through the override map, the request
  \<^verbatim>\<open>X (red)\<close> has the same cache key and gets \<^verbatim>\<open>Other.png\<close>, although its explicit
  strategy finds \<^verbatim>\<open>X (Back).png\<close> and the override map has an entry for it. And the
  explicit names are built from the name without its back tag: for the request
  \<^verbatim>\<open>Card (Back)\<close> with the matched file \<^verbatim>\<open>Card.png\<close>, the index entry for
  \<^verbatim>\<open>Card (Back) (Back)\<close> is not looked up and the override map's file is the result.
\<close>

theorem cascade_counterexample:
  "best_match ''Xred'' (sample_index xred_files)
     = Inr (Some [''img'', ''Xred.png''], [[''img'', ''Xred.png'']], True)
   \<and> best_match ''X (red)'' (sample_index xred_files)
     = Inr (Some [''img'', ''Xred.png''], [[''img'', ''Xred.png'']], True)
   \<and> backs_explicit ''X (red)'' [''img'', ''Xred.png''] (sample_index xred_files)
     = [[''img'', ''X (Back).png'']]
   \<and> map_of [(''Xred'', ''Other''), (''X (red)'', ''Other'')] ''X (red)'' = Some ''Other''
   \<and> fst (find_back_images
            (snd (find_back_images Map.empty ''Xred'' [''img'', ''Xred.png'']
                    (sample_index xred_files) (sample_catalog xred_files)
                    (map_of [(''Xred'', ''Other''), (''X (red)'', ''Other'')])))
            ''X (red)'' [''img'', ''Xred.png''] (sample_index xred_files) (sample_catalog xred_files)
            (map_of [(''Xred'', ''Other''), (''X (red)'', ''Other'')]))
     = [[''img'', ''Other.png'']]
   \<and> best_match ''Card (Back)'' (sample_index cardback_files)
     = Inr (Some [''img'', ''Card.png''],
            [[''img'', ''Card.png''], [''img'', ''Card (Back) (Back).png'']], False)
   \<and> map_of (sample_index cardback_files) (normalize_key (''Card (Back)'' @ '' (Back)''))
     = Some [[''img'', ''Card (Back) (Back).png'']]
   \<and> map_of [(''Card (Back)'', ''Other'')] ''Card (Back)'' = Some ''Other''
   \<and> fst (find_back_images Map.empty ''Card (Back)'' [''img'', ''Card.png'']
            (sample_index cardback_files) (sample_catalog cardback_files)
            (map_of [(''Card (Back)'', ''Other'')]))
     = [[''img'', ''Other.png'']]"
  by code_simp

text \<open>
  Claim C7. \<^verbatim>\<open>BACK_CACHE\<close> is keyed by \<^verbatim>\<open>normalize_key(front_card)\<close>, while the override
  map and the two containment strategies read the name as written. \<^verbatim>\<open>Ember's Call\<close> and
  \<^verbatim>\<open>Embers Call\<close> have the same normalized key and, by exact match, the same source file,
  but different token sets: with \<^verbatim>\<open>Tome (Embers Call).png\<close> in the catalog the uncached
  results are \<open>[]\<close> and that file. Memoizing by the normalized name changes the result
  of whichever spelling is requested second: after a call for the first spelling the
  second one gets \<open>[]\<close>, after a call for the second spelling the first one gets the file.
\<close>

theorem memo_order_dependence:
  "normalize_key ''Ember's Call'' = normalize_key ''Embers Call''
   \<and> best_match ''Ember's Call'' ember_index
     = Inr (Some [''img'', ''Embers Call.png''], [[''img'', ''Embers Call.png'']], True)
   \<and> best_match ''Embers Call'' ember_index
     = Inr (Some [''img'', ''Embers Call.png''], [[''img'', ''Embers Call.png'']], True)
   \<and> fst (find_back_images Map.empty ''Ember's Call'' [''img'', ''Embers Call.png'']
            ember_index ember_catalog Map.empty) = []
   \<and> fst (find_back_images Map.empty ''Embers Call'' [''img'', ''Embers Call.png'']
            ember_index ember_catalog Map.empty) = [[''img'', ''Tome (Embers Call).png'']]
   \<and> fst (find_back_images
            (snd (find_back_images Map.empty ''Ember's Call'' [''img'', ''Embers Call.png'']
                    ember_index ember_catalog Map.empty))
            ''Embers Call'' [''img'', ''Embers Call.png''] ember_index ember_catalog Map.empty) = []
   \<and> fst (find_back_images
            (snd (find_back_images Map.empty ''Embers Call'' [''img'', ''Embers Call.png'']
                    ember_index ember_catalog Map.empty))
            ''Ember's Call'' [''img'', ''Embers Call.png''] ember_index ember_catalog Map.empty)
     = [[''img'', ''Tome (Embers Call).png'']]"
  by code_simp

section \<open>Properties of the folder ledger\<close>

lemma map_of_filter_key:
  "map_of (filter (\<lambda>e. fst e \<noteq> p) f) q = (if q = p then None else map_of f q)"
  by (induction f) auto

lemma map_of_put: "map_of (put f p n) q = (if q = p then Some n else map_of f q)"
  by (auto simp add: put_def map_add_def map_of_filter_key split: option.splits)

lemma add_dir_keeps: "map_of f r = Some Dir \<Longrightarrow> map_of (add_dir f q) r = Some Dir"
  by (simp add: add_dir_def map_of_put)

lemma add_dir_binds: "map_of (add_dir f q) q = Some Dir"
  by (simp add: add_dir_def map_of_put)

lemma add_dirs_bind:
  "q \<in> set qs \<or> map_of f q = Some Dir \<Longrightarrow> map_of (foldl add_dir f qs) q = Some Dir"
proof (induction qs arbitrary: f)
  case Nil
  then show ?case by simp
next
  case (Cons a qs)
  have "map_of (add_dir f a) q = Some Dir \<or> q \<in> set qs"
    using Cons.prems add_dir_keeps add_dir_binds by auto
  then show ?case using Cons.IH [of "add_dir f a"] by auto
qed

lemma mkdir_is_dir: "mkdir f p = Inr f1 \<Longrightarrow> is_dir f1 p"
  by (auto simp add: mkdir_def is_dir_def list_all_iff add_dirs_bind split: if_splits)

lemma mkdir_existing: "is_dir f p \<Longrightarrow> mkdir f p = Inr f"
  by (simp add: mkdir_def)

lemma is_file_prefix: "is_file f p \<Longrightarrow> p \<in> set (prefixes p)"
proof -
  assume a: "is_file f p"
  have "p \<noteq> []" using a by (auto simp add: is_file_def is_dir_def prefixes_def)
  then have "length p \<in> {1..<Suc (length p)}" by (cases p) auto
  then have "take (length p) p \<in> set (prefixes p)" unfolding prefixes_def by (simp add: image_iff) 
  then show ?thesis by simp
qed

lemma mkdir_raises: "mkdir f p = Inl e \<Longrightarrow> list_ex (is_file f) (prefixes p)"
  by (auto simp add: mkdir_def list_ex_iff split: if_splits dest: is_file_prefix)

lemma mkdir_returns: "\<not> list_ex (is_file f) (prefixes p) \<Longrightarrow> \<exists>f1. mkdir f p = Inr f1 \<and> is_dir f1 p"
  by (cases "mkdir f p") (auto dest: mkdir_raises mkdir_is_dir)

lemma setdefault_lookup:
  "map_of (setdefault k v d) k' =
     (if k' = k then Some (case map_of d k of None \<Rightarrow> v | Some owner \<Rightarrow> owner) else map_of d k')"
  by (auto simp add: setdefault_def map_add_def split: option.splits)

text \<open>
  Claim C2. When the sanitized base name is in the snapshot taken before the run, or its
  target exists on disk, \<open>choose_dest_dir\<close> does nothing but \<^verbatim>\<open>mkdir\<close> on the target and
  \<^verbatim>\<open>setdefault\<close> on the ledger, whatever the requesting deck key is: it returns the target
  itself, never a numbered variant, and writes no log line. When the target is a
  directory already, the disk is left as it is. The call returns unless a regular file
  stands at the target or at one of its ancestors, and the target is then a directory.
  The ledger entry of the name is the old one if there was one, else the requesting deck
  key, and no other entry changes.
\<close>

theorem reuse_existing_folder:
  assumes "sanitize_filename base_name \<in> set existing_dirs_start
           \<or> path_exists f (path_join base_dir (sanitize_filename base_name))"
  shows "choose_dest_dir base_dir base_name deck_key existing_dirs_start folder_claims error_log f
           = (case mkdir f (path_join base_dir (sanitize_filename base_name)) of
                Inl e \<Rightarrow> Inl e
              | Inr f1 \<Rightarrow> Inr (path_join base_dir (sanitize_filename base_name),
                              setdefault (sanitize_filename base_name) deck_key folder_claims, f1))
         \<and> (is_dir f (path_join base_dir (sanitize_filename base_name)) \<longrightarrow>
              choose_dest_dir base_dir base_name deck_key existing_dirs_start folder_claims error_log f
                = Inr (path_join base_dir (sanitize_filename base_name),
                       setdefault (sanitize_filename base_name) deck_key folder_claims, f))
         \<and> (\<not> list_ex (is_file f) (prefixes (path_join base_dir (sanitize_filename base_name))) \<longrightarrow>
              (\<exists>f1. choose_dest_dir base_dir base_name deck_key existing_dirs_start folder_claims
                       error_log f
                     = Inr (path_join base_dir (sanitize_filename base_name),
                            setdefault (sanitize_filename base_name) deck_key folder_claims, f1)
                   \<and> is_dir f1 (path_join base_dir (sanitize_filename base_name))))
         \<and> (\<forall>name. map_of (setdefault (sanitize_filename base_name) deck_key folder_claims) name
                = (if name = sanitize_filename base_name
                   then Some (case map_of folder_claims name of None \<Rightarrow> deck_key | Some owner \<Rightarrow> owner)
                   else map_of folder_claims name))"
proof -
  let ?b = "sanitize_filename base_name"
  let ?t = "path_join base_dir ?b"
  have a: "choose_dest_dir base_dir base_name deck_key existing_dirs_start folder_claims error_log f
           = (case mkdir f ?t of
                Inl e \<Rightarrow> Inl e
              | Inr f1 \<Rightarrow> Inr (?t, setdefault ?b deck_key folder_claims, f1))"
    using assms by (simp add: choose_dest_dir_def Let_def)
  have b: "is_dir f ?t \<longrightarrow>
              choose_dest_dir base_dir base_name deck_key existing_dirs_start folder_claims error_log f
                = Inr (?t, setdefault ?b deck_key folder_claims, f)"
    unfolding a by (simp add: mkdir_existing)
  have c: "\<not> list_ex (is_file f) (prefixes ?t) \<longrightarrow>
              (\<exists>f1. choose_dest_dir base_dir base_name deck_key existing_dirs_start folder_claims
                       error_log f
                     = Inr (?t, setdefault ?b deck_key folder_claims, f1)
                   \<and> is_dir f1 ?t)"
  proof
    assume "\<not> list_ex (is_file f) (prefixes ?t)"
    then obtain f1 where "mkdir f ?t = Inr f1" and "is_dir f1 ?t"
      using mkdir_returns by blast
    then show "\<exists>f1. choose_dest_dir base_dir base_name deck_key existing_dirs_start folder_claims
                       error_log f
                     = Inr (?t, setdefault ?b deck_key folder_claims, f1)
                   \<and> is_dir f1 ?t"
      unfolding a by simp
  qed
  have d: "\<forall>name. map_of (setdefault ?b deck_key folder_claims) name
                = (if name = ?b
                   then Some (case map_of folder_claims name of None \<Rightarrow> deck_key | Some owner \<Rightarrow> owner)
                   else map_of folder_claims name)"
    by (simp add: setdefault_lookup)
  from a b c d show ?thesis by (intro conjI)
qed

lemma deck_a_exists: 
  "sanitize_filename ''Deck: A'' \<in> set [''Deck_ A'']
   \<or> path_exists [([''out''], Dir), ([''out'', ''Deck_ A''], Dir)]
        (path_join [''out''] (sanitize_filename ''Deck: A''))"
  by code_simp

lemma deck_a_is_dir:
  "is_dir [([''out''], Dir), ([''out'', ''Deck_ A''], Dir)]
     (path_join [''out''] (sanitize_filename ''Deck: A''))"
  by code_simp

lemma deck_a_names:
  "path_join [''out''] (sanitize_filename ''Deck: A'') = [''out'', ''Deck_ A'']
   \<and> setdefault (sanitize_filename ''Deck: A'') ''Deck B'' [(''Deck_ A'', ''Deck A'')]
       = [(''Deck_ A'', ''Deck A'')]"
  by code_simp

theorem reuse_existing_folder_witness:
  "(sanitize_filename ''Deck: A'' \<in> set [''Deck_ A'']
    \<or> path_exists [([''out''], Dir), ([''out'', ''Deck_ A''], Dir)]
         (path_join [''out''] (sanitize_filename ''Deck: A'')))
   \<and> is_dir [([''out''], Dir), ([''out'', ''Deck_ A''], Dir)]
        (path_join [''out''] (sanitize_filename ''Deck: A''))
   \<and> choose_dest_dir [''out''] ''Deck: A'' ''Deck B'' [''Deck_ A''] [(''Deck_ A'', ''Deck A'')]
        [''out'', ''ERRORS.txt''] [([''out''], Dir), ([''out'', ''Deck_ A''], Dir)]
       = Inr ([''out'', ''Deck_ A''], [(''Deck_ A'', ''Deck A'')],
              [([''out''], Dir), ([''out'', ''Deck_ A''], Dir)])"
proof -
  from reuse_existing_folder [OF deck_a_exists, of "''Deck B''" "[(''Deck_ A'', ''Deck A'')]"
      "[''out'', ''ERRORS.txt'']"] deck_a_is_dir
  have "choose_dest_dir [''out''] ''Deck: A'' ''Deck B'' [''Deck_ A''] [(''Deck_ A'', ''Deck A'')]
          [''out'', ''ERRORS.txt''] [([''out''], Dir), ([''out'', ''Deck_ A''], Dir)]
        = Inr (path_join [''out''] (sanitize_filename ''Deck: A''),
               setdefault (sanitize_filename ''Deck: A'') ''Deck B'' [(''Deck_ A'', ''Deck A'')],
               [([''out''], Dir), ([''out'', ''Deck_ A''], Dir)])"
    by blast
  with deck_a_exists deck_a_is_dir deck_a_names show ?thesis by (simp only: simp_thms)
qed

text \<open>
  Claim C9. For a folder whose name ends with the suffix, \<open>rename_with_suffix\<close> returns
  the folder and leaves the disk as it is: nothing is renamed, no variant name is
  computed and no log line is written.
\<close>

theorem rename_with_suffix_marked:
  assumes "endswith (path_name dest_dir) suffix"
  shows "rename_with_suffix dest_dir suffix error_log error_text f = Inr (dest_dir, f)"
  using assms by (simp add: rename_with_suffix_def Let_def)

lemma marked_name:
  "endswith (path_name [''out'', ''Storm - Unique front and backs'']) '' - Unique front and backs''"
  by code_simp

theorem rename_with_suffix_marked_witness:
  "endswith (path_name [''out'', ''Storm - Unique front and backs'']) '' - Unique front and backs''
   \<and> rename_with_suffix [''out'', ''Storm - Unique front and backs''] '' - Unique front and backs''
        [''out'', ''ERRORS.txt''] (\<lambda>e. []) [([''out''], Dir), ([''out'', ''Storm - Unique front and backs''], Dir)]
       = Inr ([''out'', ''Storm - Unique front and backs''],
              [([''out''], Dir), ([''out'', ''Storm - Unique front and backs''], Dir)])"
  using marked_name rename_with_suffix_marked [OF marked_name] by simp

section \<open>Same-run collisions\<close>

lemma variant_loop_first_free:
  "start \<le> variant_loop f d b c start
   \<and> \<not> variant_taken f d b c (variant_loop f d b c start)
   \<and> (\<forall>m. start \<le> m \<and> m < variant_loop f d b c start \<longrightarrow> variant_taken f d b c m)"
proof (induction f d b c start rule: variant_loop.induct)
  case (1 f d b c n)
  have e: "variant_loop f d b c n
             = (if \<not> variant_taken f d b c n then n else variant_loop f d b c (Suc n))"
    by (rule variant_loop.simps)
  show ?case
  proof (cases "variant_taken f d b c n")
    case False
    then show ?thesis by (auto simp add: e)
  next
    case True
    with 1 have ih: "Suc n \<le> variant_loop f d b c (Suc n)
        \<and> \<not> variant_taken f d b c (variant_loop f d b c (Suc n))
        \<and> (\<forall>m. Suc n \<le> m \<and> m < variant_loop f d b c (Suc n) \<longrightarrow> variant_taken f d b c m)"
      by simp
    have "\<forall>m. n \<le> m \<and> m < variant_loop f d b c (Suc n) \<longrightarrow> variant_taken f d b c m"
    proof (intro allI impI)
      fix m
      assume m: "n \<le> m \<and> m < variant_loop f d b c (Suc n)"
      show "variant_taken f d b c m"
      proof (cases "m = n")
        case True
        with \<open>variant_taken f d b c n\<close> show ?thesis by simp
      next
        case False
        with m have "Suc n \<le> m" by simp
        with m ih show ?thesis by blast
      qed
    qed
    with ih True show ?thesis by (simp add: e)
  qed
qed

text \<open>
  In the collision branch \<open>choose_dest_dir\<close> takes the first number from 2 on whose
  candidate neither exists on disk nor is claimed, makes the folder, claims it and logs
  the event.
\<close>

lemma choose_dest_dir_collision:
  assumes "sanitize_filename base_name \<notin> set existing_dirs_start"
      and "\<not> path_exists f (path_join base_dir (sanitize_filename base_name))"
      and "map_of folder_claims (sanitize_filename base_name) = Some owner"
      and "owner \<noteq> deck_key"
  shows "choose_dest_dir base_dir base_name deck_key existing_dirs_start folder_claims error_log f
           = (let variant = variant_name (sanitize_filename base_name)
                              (variant_loop f base_dir (sanitize_filename base_name) folder_claims 2)
              in case mkdir f (path_join base_dir variant) of
                   Inl e \<Rightarrow> Inl e
                 | Inr f1 \<Rightarrow>
                     (case log (variant_message (sanitize_filename base_name) owner variant deck_key)
                             error_log f1 of
                        Inl e \<Rightarrow> Inl e
                      | Inr f2 \<Rightarrow> Inr (path_join base_dir variant,
                                      dict_set variant deck_key folder_claims, f2)))"
  using assms by (simp add: choose_dest_dir_def Let_def)

text \<open>
  Claim C3. The collision branch is reached only when the claimed folder is no longer on
  disk. Of two decks with the keys \<^verbatim>\<open>Deck A\<close> and \<^verbatim>\<open>Deck B\<close> and the fresh base name
  \<^verbatim>\<open>Storm\<close>, the first creates and claims \<^verbatim>\<open>out/Storm\<close>; for the second the target now
  exists, so the reuse branch returns \<^verbatim>\<open>out/Storm\<close> again, no variant is made and the ledger
  still names the first deck. Only when the first deck's folder has been renamed in
  between does the second deck get \<^verbatim>\<open>out/Storm (variant 2)\<close> and the event is logged.
  In a whole run, the decklists titled \<^verbatim>\<open>Storm\<close> and \<^verbatim>\<open>Storm?\<close> have different deck keys
  and the same sanitized folder name, and both are copied into \<^verbatim>\<open>out/Storm\<close>.
\<close>

theorem same_run_collision_reuses_folder:
  "choose_dest_dir [''out''] ''Storm'' ''Deck A'' [] [] [''out'', ''ERRORS.txt''] [([''out''], Dir)]
     = Inr ([''out'', ''Storm''], [(''Storm'', ''Deck A'')],
            [([''out''], Dir), ([''out'', ''Storm''], Dir)])
   \<and> choose_dest_dir [''out''] ''Storm'' ''Deck B'' [] [(''Storm'', ''Deck A'')]
       [''out'', ''ERRORS.txt''] [([''out''], Dir), ([''out'', ''Storm''], Dir)]
     = Inr ([''out'', ''Storm''], [(''Storm'', ''Deck A'')],
            [([''out''], Dir), ([''out'', ''Storm''], Dir)])
   \<and> choose_dest_dir [''out''] ''Storm'' ''Deck B'' [] [(''Storm'', ''Deck A'')]
       [''out'', ''ERRORS.txt'']
       [([''out''], Dir), ([''out'', ''Storm - Unique front and backs''], Dir)]
     = Inr ([''out'', ''Storm (variant 2)''],
            [(''Storm'', ''Deck A''), (''Storm (variant 2)'', ''Deck B'')],
            [([''out''], Dir), ([''out'', ''Storm - Unique front and backs''], Dir),
             ([''out'', ''Storm (variant 2)''], Dir),
             ([''out'', ''ERRORS.txt''],
              File (''[VARIANT] '' @ [CHR 0x27] @ ''Storm'' @ [CHR 0x27] @ '' already claimed by ''
                    @ [CHR 0x27] @ ''Deck A'' @ [CHR 0x27] @ ''. Created '' @ [CHR 0x27]
                    @ ''Storm (variant 2)'' @ [CHR 0x27] @ '' for '' @ [CHR 0x27] @ ''Deck B''
                    @ [CHR 0x27] @ ''.'' @ [CHR 0x0A]))])
   \<and> map (\<lambda>deck. fst (parse_deck_file (fst deck) (snd deck) False)) storm_decks
     = [''Storm'', ''Storm?'']
   \<and> main storm_args storm_decks storm_disk
     = Inr (storm_disk @ [([''out'', ''Storm''], Dir),
                          ([''out'', ''Storm'', ''Alpha - 1 of 1.png''], File ''alpha''),
                          ([''out'', ''Storm'', ''Beta - 1 of 1.png''], File ''beta'')])"
  by code_simp

section \<open>End-to-end runs\<close>

text \<open>
  Claim C4, amended. In the sample run the parser carries the card forward as
  \<^verbatim>\<open>Ember's Call (red)\<close>, with the pitch in its canonical lower-case form, and the run
  leaves the output root with one deck folder, renamed with the marker
  \<^verbatim>\<open> - Unique front and backs\<close>, that holds exactly the two front copies
  \<^verbatim>\<open>Ember's Call (red) - 1 of 2.png\<close> and \<^verbatim>\<open>Ember's Call (red) - 2 of 2.png\<close> and the two
  back copies \<^verbatim>\<open>Ember's Call (Back) - 1 of 2.png\<close> and \<^verbatim>\<open>Ember's Call (Back) - 2 of 2.png\<close>;
  nothing is logged.
\<close>

theorem ember_scenario:
  "parse_deck_file [''decks'', ''deck.txt''] ''2x Ember's Call (Red)'' False
     = (''deck'', [], [], [(2, ''Ember's Call (red)'')])
   \<and> main ember_args ember_decks ember_disk
     = Inr (ember_disk @ [([''out''], Dir)]
              @ deck_copies [''out'', ''deck - Unique front and backs''])"
  by code_simp

text \<open>
  Claim C4 as stated names the front copies with the pitch as the decklist writes it.
  The run makes no file of those names: the front copies carry \<^verbatim>\<open>(red)\<close>.
\<close>

theorem ember_names_counterexample:
  "(case main ember_args ember_decks ember_disk of
      Inl e \<Rightarrow> False
    | Inr f \<Rightarrow>
        list_all (\<lambda>entry. path_name (fst entry) \<noteq> ''Ember's Call (Red) - 1 of 2.png''
                          \<and> path_name (fst entry) \<noteq> ''Ember's Call (Red) - 2 of 2.png'') f
        \<and> is_file f [''out'', ''deck - Unique front and backs'', ''Ember's Call (red) - 1 of 2.png'']
        \<and> is_file f [''out'', ''deck - Unique front and backs'', ''Ember's Call (red) - 2 of 2.png''])"
  by code_simp

text \<open>
  Claim C1. A second run on the disk that the sample run left, with the same library,
  decklist and options, does not find the deck folder under its unmarked name
  \<^verbatim>\<open>deck\<close>: the name is not in the snapshot and does not exist, so the folder is created
  anew, all four files are copied again, and the folder is renamed to
  \<^verbatim>\<open>deck - Unique front and backs (variant 2)\<close>, the marked name being taken.
\<close>

theorem rerun_copies_again:
  "main ember_args ember_decks ember_disk
     = Inr (ember_disk @ [([''out''], Dir)]
              @ deck_copies [''out'', ''deck - Unique front and backs''])
   \<and> main ember_args ember_decks
       (ember_disk @ [([''out''], Dir)] @ deck_copies [''out'', ''deck - Unique front and backs''])
     = Inr (ember_disk @ [([''out''], Dir)]
              @ deck_copies [''out'', ''deck - Unique front and backs'']
              @ deck_copies [''out'', ''deck - Unique front and backs (variant 2)''])"
  by code_simp

end
